theory Spec2Isabelle
  imports Main "HOL-Library.AList" "HOL-Library.Multiset" "HOL-Library.Word"
begin

section \<open>Project and session resolution engine\<close>

text \<open>
  A shallow embedding of the project catalogue of the server (extractProjectDirectory,
  getProjects, getSessions, parseJsonlSessions, renameProject, deleteSession,
  isProjectEmpty and addProjectManually).

  Conventions of the embedding:
  \<^item> A JavaScript string is the list of its UTF-16 code units, a \<open>jsstring\<close>: \<open>length\<close>,
    \<open>substring\<close>, \<open>startsWith\<close>, \<open>endsWith\<close>, \<open>split\<close>, \<open>replace\<close> and \<open>trim\<close> work on
    code units there as they do here. \<open>js\<close> makes the string of a literal. An optional field
    is an \<open>option\<close>, and the truthiness test \<open>if (x)\<close> on an optional string is \<open>truthy\<close>
    (present and not empty).
  \<^item> A \<open>Map\<close> and a plain object used as a dictionary are association lists in
    insertion order (\<open>AList.update\<close> keeps the position of a key that is already there
    and appends a new one, as \<open>Map.set\<close> does).
  \<^item> A \<open>Date\<close> is a \<open>jsdate\<close>: an instant in milliseconds since the epoch, or the
    invalid date that \<open>new Date\<close> makes of a string denoting no date. \<open>getTime\<close> of
    the invalid date is \<open>NaN\<close> (here \<open>None\<close>), every comparison with \<open>NaN\<close> is false,
    and \<open>toISOString\<close> of the invalid date throws. On a valid date \<open>toISOString\<close>
    followed by \<open>new Date\<close> is the identity, so the two fields of a listed session
    that hold ISO strings are modelled by the instant.
  \<^item> The run-time environment is a \<open>runtime\<close>. Its clock gives the instant that the
    evaluation number \<open>k\<close> of \<open>new Date()\<close> reads; the number of readings made so far is
    passed along and returned by every function that reads the clock. Its \<open>sortOrder\<close> is
    the arrangement \<open>Array.prototype.sort\<close> leaves when the comparison is not consistent,
    which ECMAScript leaves to the implementation.
  \<^item> The streaming readers see a log file as the sequence of lines the line reader hands
    them, each one blank, malformed (\<open>JSON.parse\<close> or a field access throws) or a
    parsed entry. Files listed by \<open>readdir\<close> can be read, written and examined with
    \<open>stat\<close>; only \<open>readdir\<close> itself can fail.
\<close>

subsection \<open>Strings\<close>

type_synonym codeunit = "16 word"

type_synonym jsstring = "codeunit list"

definition js :: "string \<Rightarrow> jsstring" where
  "js s = map of_char s"

definition truthy :: "jsstring option \<Rightarrow> bool" where
  "truthy x = (case x of None \<Rightarrow> False | Some s \<Rightarrow> s \<noteq> [])"

definition startsWith :: "jsstring \<Rightarrow> jsstring \<Rightarrow> bool" where
  "startsWith s pre = (take (length pre) s = pre)"

definition endsWith :: "jsstring \<Rightarrow> jsstring \<Rightarrow> bool" where
  "endsWith s suf = (length suf \<le> length s \<and> drop (length s - length suf) s = suf)"

text \<open>\<open>absolutePath.replace(/\//g, '-')\<close>, the identifier of a manually added project.\<close>

definition encodeProjectName :: "jsstring \<Rightarrow> jsstring" where
  "encodeProjectName p = map (\<lambda>c. if c = of_char CHR ''/'' then of_char CHR ''-'' else c) p"

text \<open>\<open>projectName.replace(/-/g, '/')\<close>, the fallback decoding of an identifier.\<close>

definition decodeProjectName :: "jsstring \<Rightarrow> jsstring" where
  "decodeProjectName n = map (\<lambda>c. if c = of_char CHR ''-'' then of_char CHR ''/'' else c) n"

text \<open>\<open>s.split(sep)\<close> for a one-character separator, and \<open>parts.join(sep)\<close>.\<close>

fun splitOn :: "'a \<Rightarrow> 'a list \<Rightarrow> 'a list list" where
  "splitOn sep [] = [Nil]"
| "splitOn sep (c # cs) =
     (if c = sep then [] # splitOn sep cs
      else (case splitOn sep cs of [] \<Rightarrow> [c] # Nil | x # xs \<Rightarrow> (c # x) # xs))"

fun joinWith :: "'a list \<Rightarrow> 'a list list \<Rightarrow> 'a list" where
  "joinWith sep [] = []"
| "joinWith sep [x] = x"
| "joinWith sep (x # y # ys) = x @ sep @ joinWith sep (y # ys)"

text \<open>
  \<open>String.prototype.trim\<close> removes the leading and trailing white space and line
  terminators of ECMAScript: \<open>U+0009\<close> to \<open>U+000D\<close>, \<open>U+0020\<close>, \<open>U+00A0\<close>, \<open>U+1680\<close>,
  \<open>U+2000\<close> to \<open>U+200A\<close>, \<open>U+2028\<close>, \<open>U+2029\<close>, \<open>U+202F\<close>, \<open>U+205F\<close>, \<open>U+3000\<close> and
  \<open>U+FEFF\<close>. Each of them is one code unit.
\<close>

definition isSpace :: "codeunit \<Rightarrow> bool" where
  "isSpace c = (c \<in> set [0x0009, 0x000A, 0x000B, 0x000C, 0x000D, 0x0020, 0x00A0, 0x1680,
     0x2000, 0x2001, 0x2002, 0x2003, 0x2004, 0x2005, 0x2006, 0x2007, 0x2008, 0x2009, 0x200A,
     0x2028, 0x2029, 0x202F, 0x205F, 0x3000, 0xFEFF])"

definition trim :: "jsstring \<Rightarrow> jsstring" where
  "trim s = rev (dropWhile isSpace (rev (dropWhile isSpace s)))"

subsection \<open>Log entries and log files\<close>

datatype content = Text jsstring | Structured

datatype jsdate = Millis int | InvalidDate

definition getTime :: "jsdate \<Rightarrow> int option" where
  "getTime d = (case d of Millis t \<Rightarrow> Some t | InvalidDate \<Rightarrow> None)"

record message =
  role :: jsstring
  content :: content

text \<open>
  A parsed entry. \<open>timestamp\<close> is absent when the field is missing or falsy, and is
  otherwise the date that \<open>new Date(entry.timestamp)\<close> makes of it.
\<close>

record session_entry =
  sessionId :: "jsstring option"
  entryType :: "jsstring option"
  timestamp :: "jsdate option"
  cwd :: "jsstring option"
  summary :: "jsstring option"
  message :: "message option"

datatype logline = Blank | Malformed | Entry session_entry

record logfile =
  fname :: jsstring
  mtime :: int
  loglines :: "logline list"

text \<open>
  \<open>fs.readdir(projectDir)\<close> for a project name: \<open>None\<close> when it throws (the directory is
  absent or unreadable).
\<close>

type_synonym project_dirs = "jsstring \<Rightarrow> logfile list option"

definition jsonlFiles :: "logfile list \<Rightarrow> logfile list" where
  "jsonlFiles files = filter (\<lambda>f. endsWith (fname f) (js ''.jsonl'')) files"

subsection \<open>Directory resolution\<close>

record scan_state =
  cwdCounts :: "(jsstring \<times> nat) list"
  latestTimestamp :: int
  latestCwd :: "jsstring option"

definition initScan :: scan_state where
  "initScan = \<lparr>cwdCounts = [], latestTimestamp = 0, latestCwd = None\<rparr>"

definition getCount :: "(jsstring \<times> nat) list \<Rightarrow> jsstring \<Rightarrow> nat" where
  "getCount counts c = (case map_of counts c of None \<Rightarrow> 0 | Some n \<Rightarrow> n)"

text \<open>
  The body of the innermost loop, for one entry whose \<open>cwd\<close> is \<open>c\<close> and whose
  \<open>new Date(entry.timestamp || 0).getTime()\<close> is \<open>t\<close> (\<open>None\<close> for \<open>NaN\<close>).
\<close>

definition scanCwd :: "scan_state \<Rightarrow> jsstring \<times> int option \<Rightarrow> scan_state" where
  "scanCwd st ct =
     (let c = fst ct;
          st1 = st\<lparr>cwdCounts := AList.update c (getCount (cwdCounts st) c + 1) (cwdCounts st)\<rparr>
      in case snd ct of
           None \<Rightarrow> st1
         | Some t \<Rightarrow>
             if t > latestTimestamp st1 then st1\<lparr>latestTimestamp := t, latestCwd := Some c\<rparr>
             else st1)"

definition entryTime :: "session_entry \<Rightarrow> int option" where
  "entryTime e = (case timestamp e of None \<Rightarrow> Some 0 | Some d \<Rightarrow> getTime d)"

fun scanLine :: "scan_state \<Rightarrow> logline \<Rightarrow> scan_state" where
  "scanLine st Blank = st"
| "scanLine st Malformed = st"
| "scanLine st (Entry e) =
     (if truthy (cwd e) then scanCwd st (the (cwd e), entryTime e) else st)"

definition scanFile :: "scan_state \<Rightarrow> logfile \<Rightarrow> scan_state" where
  "scanFile st f = foldl scanLine st (loglines f)"

definition scanFiles :: "logfile list \<Rightarrow> scan_state" where
  "scanFiles files = foldl scanFile initScan files"

text \<open>
  The decision once all files are scanned. \<open>mostRecentCount >= maxCount * 0.25\<close> is
  exact in floating point (a multiplication by a power of two), so it is
  \<open>maxCount \<le> 4 * mostRecentCount\<close> on the naturals. \<open>Math.max\<close> runs over counts that
  are all at least 1.
\<close>

definition firstWithCount :: "(jsstring \<times> nat) list \<Rightarrow> nat \<Rightarrow> jsstring option" where
  "firstWithCount counts n = map_option fst (find (\<lambda>p. snd p = n) counts)"

definition chooseCwd :: "jsstring \<Rightarrow> scan_state \<Rightarrow> jsstring" where
  "chooseCwd projectName st =
     (let counts = cwdCounts st in
      if length counts = 0 then decodeProjectName projectName
      else if length counts = 1 then fst (hd counts)
      else
        let mostRecentCount = (case latestCwd st of None \<Rightarrow> 0 | Some l \<Rightarrow> getCount counts l);
            maxCount = fold max (map snd counts) 0;
            extractedPath = (if maxCount \<le> 4 * mostRecentCount then latestCwd st
                             else firstWithCount counts maxCount)
        in if truthy extractedPath then the extractedPath
           else if truthy (latestCwd st) then the (latestCwd st)
           else decodeProjectName projectName)"

text \<open>
  The process-wide cache. \<open>fsReads\<close> is instrumentation: it counts the calls of
  \<open>readdir\<close> and the files streamed, that is, the work a scan does on the file system.
\<close>

record resolver_state =
  cache :: "jsstring \<rightharpoonup> jsstring"
  fsReads :: nat

definition clearProjectDirectoryCache :: "resolver_state \<Rightarrow> resolver_state" where
  "clearProjectDirectoryCache st = st\<lparr>cache := Map.empty\<rparr>"

definition extractProjectDirectory ::
  "project_dirs \<Rightarrow> jsstring \<Rightarrow> resolver_state \<Rightarrow> jsstring \<times> resolver_state" where
  "extractProjectDirectory dirs projectName st =
     (case cache st projectName of
        Some p \<Rightarrow> (p, st)
      | None \<Rightarrow>
         (case dirs projectName of
            None \<Rightarrow>
              (let extractedPath = decodeProjectName projectName
               in (extractedPath,
                   st\<lparr>cache := (cache st)(projectName \<mapsto> extractedPath),
                      fsReads := fsReads st + 1\<rparr>))
          | Some files \<Rightarrow>
              (let jsonl = jsonlFiles files;
                   extractedPath =
                     (if length jsonl = 0 then decodeProjectName projectName
                      else chooseCwd projectName (scanFiles jsonl))
               in (extractedPath,
                   st\<lparr>cache := (cache st)(projectName \<mapsto> extractedPath),
                      fsReads := fsReads st + 1 + length jsonl\<rparr>))))"

text \<open>
  The words of the specification, for comparison with the scan: the sequence of
  (\<open>cwd\<close>, timestamp) observations in scan order, the distinct values of a sequence in
  the order in which they are first met, and the path carried by the entry with the
  maximum observed timestamp (the first such entry).
\<close>

fun observedLine :: "logline \<Rightarrow> (jsstring \<times> int option) list" where
  "observedLine (Entry e) = (if truthy (cwd e) then [(the (cwd e), entryTime e)] else [])"
| "observedLine _ = []"

definition observed :: "logfile list \<Rightarrow> (jsstring \<times> int option) list" where
  "observed files = concat (map (\<lambda>f. concat (map observedLine (loglines f))) files)"

definition firstSeen :: "'a list \<Rightarrow> 'a list" where
  "firstSeen xs = foldl (\<lambda>acc x. if x \<in> set acc then acc else acc @ [x]) [] xs"

definition observedTimes :: "(jsstring \<times> int option) list \<Rightarrow> int list" where
  "observedTimes obs = concat (map (\<lambda>ct. case snd ct of None \<Rightarrow> [] | Some t \<Rightarrow> [t]) obs)"

definition maxTimestampCwd :: "(jsstring \<times> int option) list \<Rightarrow> jsstring option" where
  "maxTimestampCwd obs =
     (if observedTimes obs = [] then None
      else map_option fst (find (\<lambda>ct. snd ct = Some (Max (set (observedTimes obs)))) obs))"

subsection \<open>Session aggregation\<close>

record session_data =
  sd_id :: jsstring
  sd_summary :: jsstring
  messageCount :: nat
  lastActivity :: jsdate
  sd_cwd :: jsstring

type_synonym session_map = "(jsstring \<times> session_data) list"

text \<open>
  The run-time environment: \<open>clock rt k\<close> is the instant that the evaluation number
  \<open>k\<close> of \<open>new Date()\<close> reads, and \<open>sortOrder rt xs\<close> lists, for each position of the
  array that a sort with an inconsistent comparison leaves, the index in \<open>xs\<close> of the
  element it holds.
\<close>

record runtime =
  clock :: "nat \<Rightarrow> int"
  sortOrder :: "session_data list \<Rightarrow> nat list"

text \<open>\<open>now\<close> is what \<open>new Date()\<close> reads when the session is created.\<close>

definition newSession :: "int \<Rightarrow> session_entry \<Rightarrow> jsstring \<Rightarrow> session_data" where
  "newSession now e sid =
     \<lparr>sd_id = sid, sd_summary = js ''New Session'', messageCount = 0, lastActivity = Millis now,
      sd_cwd = (case cwd e of None \<Rightarrow> [] | Some c \<Rightarrow> c)\<rparr>"

definition contentTruthy :: "content \<Rightarrow> bool" where
  "contentTruthy c = (case c of Text t \<Rightarrow> t \<noteq> [] | Structured \<Rightarrow> True)"

definition updateSummary :: "session_entry \<Rightarrow> session_data \<Rightarrow> session_data" where
  "updateSummary e session =
     (if entryType e = Some (js ''summary'') \<and> truthy (summary e)
      then session\<lparr>sd_summary := the (summary e)\<rparr>
      else
        (case message e of
           None \<Rightarrow> session
         | Some m \<Rightarrow>
             if role m = js ''user'' \<and> contentTruthy (content m) \<and>
                sd_summary session = js ''New Session''
             then
               (case content m of
                  Structured \<Rightarrow> session
                | Text c \<Rightarrow>
                    if length c > 0 then
                      if \<not> startsWith c (js ''<command-name>'')
                      then session\<lparr>sd_summary :=
                             (if length c > 50 then take 50 c @ js ''...'' else c)\<rparr>
                      else session
                    else session)
             else session))"

text \<open>
  The body of the loop over the lines of one file. The state is the map \<open>sessions\<close>
  together with the number of clock readings made so far: a session that is not yet in
  the map is created, which reads the clock once.
\<close>

definition processEntry ::
  "runtime \<Rightarrow> session_map \<times> nat \<Rightarrow> session_entry \<Rightarrow> session_map \<times> nat" where
  "processEntry rt st e =
     (case sessionId e of
        None \<Rightarrow> st
      | Some sid \<Rightarrow>
          if sid = [] then st
          else
            let sessionMap = fst st;
                reads = snd st;
                (session, reads') = (case map_of sessionMap sid of
                                       None \<Rightarrow> (newSession (clock rt reads) e sid, reads + 1)
                                     | Some s \<Rightarrow> (s, reads));
                s1 = updateSummary e session;
                s2 = s1\<lparr>messageCount := messageCount s1 + 1\<rparr>;
                s3 = (case timestamp e of None \<Rightarrow> s2 | Some d \<Rightarrow> s2\<lparr>lastActivity := d\<rparr>)
            in (AList.update sid s3 sessionMap, reads'))"

fun processLine :: "runtime \<Rightarrow> session_map \<times> nat \<Rightarrow> logline \<Rightarrow> session_map \<times> nat" where
  "processLine rt st Blank = st"
| "processLine rt st Malformed = st"
| "processLine rt st (Entry e) = processEntry rt st e"

definition sessionMapOf :: "runtime \<Rightarrow> nat \<Rightarrow> logline list \<Rightarrow> session_map \<times> nat" where
  "sessionMapOf rt reads ls = foldl (processLine rt) ([], reads) ls"

text \<open>
  \<open>Array.prototype.sort\<close> with the comparison function \<open>b - a\<close> on the times of the
  dates. The sort takes a result \<open>NaN\<close> of the comparison function for \<open>+0\<close>, and it is
  stable. When every date is valid, the result is the stable sort by descending time.
  When some date is invalid and the valid dates all have the same time, every pair
  compares equal and the array stays as it is. Otherwise an invalid date compares equal
  to two dates that differ, the comparison is not consistent, and the arrangement is the
  one the run-time environment leaves (an index list that is no permutation of the
  indices stands for the unchanged order).
\<close>

definition timeOf :: "jsdate \<Rightarrow> int" where
  "timeOf d = (case d of Millis t \<Rightarrow> t | InvalidDate \<Rightarrow> 0)"

definition validTimes :: "session_data list \<Rightarrow> int list" where
  "validTimes xs =
     concat (map (\<lambda>s. case lastActivity s of Millis t \<Rightarrow> [t] | InvalidDate \<Rightarrow> []) xs)"

definition arrange :: "nat list \<Rightarrow> 'a list \<Rightarrow> 'a list" where
  "arrange order xs = (if sort order = [0..<length xs] then map (\<lambda>i. xs ! i) order else xs)"

definition sortByLastActivity :: "runtime \<Rightarrow> session_data list \<Rightarrow> session_data list" where
  "sortByLastActivity rt xs =
     (if list_all (\<lambda>s. lastActivity s \<noteq> InvalidDate) xs
      then sort_key (\<lambda>s. - timeOf (lastActivity s)) xs
      else if length (remdups (validTimes xs)) \<le> 1 then xs
      else arrange (sortOrder rt xs) xs)"

definition parseJsonlSessions ::
  "runtime \<Rightarrow> nat \<Rightarrow> logline list \<Rightarrow> session_data list \<times> nat" where
  "parseJsonlSessions rt reads ls =
     (let (sessionMap, reads') = sessionMapOf rt reads ls
      in (sortByLastActivity rt (map snd sessionMap), reads'))"

record session =
  s_id :: jsstring
  title :: jsstring
  created_at :: int
  updated_at :: int
  message_count :: nat

record sessions_result =
  sessions :: "session list"
  hasMore :: bool
  total :: nat
  res_offset :: "nat option"
  res_limit :: "nat option"

text \<open>The mapping to the listed session; \<open>None\<close> when \<open>toISOString\<close> throws.\<close>

definition toSession :: "session_data \<Rightarrow> session option" where
  "toSession d =
     (case lastActivity d of
        InvalidDate \<Rightarrow> None
      | Millis t \<Rightarrow>
          Some \<lparr>s_id = sd_id d, title = sd_summary d, created_at = t, updated_at = t,
                message_count = messageCount d\<rparr>)"

definition emptyResult :: sessions_result where
  "emptyResult = \<lparr>sessions = [], hasMore = False, total = 0, res_offset = None, res_limit = None\<rparr>"

text \<open>\<open>xs.slice(start, end)\<close> for \<open>0 \<le> start \<le> end\<close>.\<close>

definition slice :: "'a list \<Rightarrow> nat \<Rightarrow> nat \<Rightarrow> 'a list" where
  "slice xs start end = take (end - start) (drop start xs)"

text \<open>
  The sort of the files by \<open>b.mtime.getTime() - a.mtime.getTime()\<close>: modification times
  are valid dates, so this is the stable sort by descending time.
\<close>

definition sortFilesByMtime :: "logfile list \<Rightarrow> logfile list" where
  "sortFilesByMtime fs = sort_key (\<lambda>f. - mtime f) fs"

definition mergeStep :: "session_map \<Rightarrow> session_data \<Rightarrow> session_map" where
  "mergeStep allSessions s =
     (if map_of allSessions (sd_id s) \<noteq> None then allSessions
      else AList.update (sd_id s) s allSessions)"

definition mergeSessions :: "session_map \<Rightarrow> session_data list \<Rightarrow> session_map" where
  "mergeSessions allSessions parsed = foldl mergeStep allSessions parsed"

text \<open>
  The loop over the files. Its result is the state in which the loop ends: the map
  \<open>allSessions\<close>, the counter \<open>processedCount\<close> and the number of clock readings.
\<close>

record collect_result =
  collected :: session_map
  filesProcessed :: nat
  readsAfter :: nat

fun processFiles ::
  "runtime \<Rightarrow> nat \<Rightarrow> nat \<Rightarrow> nat \<Rightarrow> logfile list \<Rightarrow> session_map \<Rightarrow> nat \<Rightarrow> nat
     \<Rightarrow> collect_result" where
  "processFiles rt limit offset fileCount [] allSessions processedCount reads =
     \<lparr>collected = allSessions, filesProcessed = processedCount, readsAfter = reads\<rparr>"
| "processFiles rt limit offset fileCount (f # fs) allSessions processedCount reads =
     (let (parsed, reads') = parseJsonlSessions rt reads (loglines f);
          allSessions' = mergeSessions allSessions parsed;
          processedCount' = processedCount + 1
      in if (limit + offset) * 2 \<le> length allSessions' \<and> min 3 fileCount \<le> processedCount'
         then \<lparr>collected = allSessions', filesProcessed = processedCount', readsAfter = reads'\<rparr>
         else processFiles rt limit offset fileCount fs allSessions' processedCount' reads')"

definition collectSessions ::
  "runtime \<Rightarrow> nat \<Rightarrow> nat \<Rightarrow> nat \<Rightarrow> logfile list \<Rightarrow> collect_result" where
  "collectSessions rt reads limit offset jsonl =
     (let filesWithStats = sortFilesByMtime jsonl
      in processFiles rt limit offset (length filesWithStats) filesWithStats [] 0 reads)"

text \<open>
  The sort of the listed sessions by \<open>new Date(b.updated_at).getTime() -
  new Date(a.updated_at).getTime()\<close>: every \<open>updated_at\<close> is the ISO string of a valid date,
  so this is the stable sort by descending time.
\<close>

definition sortSessions :: "session list \<Rightarrow> session list" where
  "sortSessions xs = sort_key (\<lambda>s. - updated_at s) xs"

datatype io_error = ReaddirFailed | InvalidTimeValue

definition getSessionsBody ::
  "project_dirs \<Rightarrow> runtime \<Rightarrow> nat \<Rightarrow> jsstring \<Rightarrow> nat \<Rightarrow> nat
     \<Rightarrow> (io_error + sessions_result) \<times> nat" where
  "getSessionsBody dirs rt reads projectName limit offset =
     (case dirs projectName of
        None \<Rightarrow> (Inl ReaddirFailed, reads)
      | Some files \<Rightarrow>
          (let jsonl = jsonlFiles files in
           if length jsonl = 0 then (Inr emptyResult, reads)
           else
             let c = collectSessions rt reads limit offset jsonl in
             case those (map toSession (map snd (collected c))) of
               None \<Rightarrow> (Inl InvalidTimeValue, readsAfter c)
             | Some mapped \<Rightarrow>
                 let sortedSessions = sortSessions mapped;
                     n = length sortedSessions
                 in (Inr \<lparr>sessions = slice sortedSessions offset (offset + limit),
                          hasMore = (offset + limit < n), total = n,
                          res_offset = Some offset, res_limit = Some limit\<rparr>, readsAfter c)))"

text \<open>The \<open>try\<close>/\<open>catch\<close> around the whole body turns every failure into the empty result.\<close>

definition getSessions ::
  "project_dirs \<Rightarrow> runtime \<Rightarrow> nat \<Rightarrow> jsstring \<Rightarrow> nat \<Rightarrow> nat \<Rightarrow> sessions_result \<times> nat" where
  "getSessions dirs rt reads projectName limit offset =
     (case getSessionsBody dirs rt reads projectName limit offset of
        (Inl err, reads') \<Rightarrow> (emptyResult, reads')
      | (Inr r, reads') \<Rightarrow> (r, reads'))"

text \<open>
  \<open>isProjectEmpty\<close>, by which \<open>deleteProject\<close> decides whether it may remove the project
  directory (\<open>getSessions\<close> throws nothing, so the handler of \<open>isProjectEmpty\<close> is never
  entered).
\<close>

definition isProjectEmpty :: "project_dirs \<Rightarrow> runtime \<Rightarrow> nat \<Rightarrow> jsstring \<Rightarrow> bool \<times> nat" where
  "isProjectEmpty dirs rt reads projectName =
     (let (sessionsResult, reads') = getSessions dirs rt reads projectName 1 0
      in (total sessionsResult = 0, reads'))"

subsection \<open>Configuration store and project catalogue\<close>

text \<open>
  The persisted configuration document is the value \<open>loadProjectConfig\<close> returns and
  \<open>saveProjectConfig\<close> writes: an object from project identifiers to entries, in
  insertion order (identifiers are not integer-like keys). The file system offers the
  operations the catalogue calls: the directory names under the projects directory
  (\<open>None\<close> when \<open>readdir\<close> throws), the files of one project directory, the truthy
  \<open>name\<close> of the \<open>package.json\<close> at a path, \<open>path.resolve\<close>, and \<open>fs.access\<close> on a
  user path and on the directory of a project identifier.
\<close>

record project_config_entry =
  cfgDisplayName :: "jsstring option"
  manuallyAdded :: "bool option"
  originalPath :: "jsstring option"

type_synonym project_config = "(jsstring \<times> project_config_entry) list"

datatype access_result = Accessible | ENOENT | AccessError

record filesystem =
  projectDirs :: "jsstring list option"
  dirFiles :: project_dirs
  packageName :: "jsstring \<Rightarrow> jsstring option"
  resolvePath :: "jsstring \<Rightarrow> jsstring"
  accessPath :: "jsstring \<Rightarrow> access_result"
  accessProjectDir :: "jsstring \<Rightarrow> access_result"

record session_meta =
  metaHasMore :: bool
  metaTotal :: nat

record project =
  name :: jsstring
  displayName :: jsstring
  fullPath :: jsstring
  sessionMeta :: session_meta
  projectSessions :: "session list"

definition generateDisplayName ::
  "(jsstring \<Rightarrow> jsstring option) \<Rightarrow> jsstring \<Rightarrow> jsstring option \<Rightarrow> jsstring" where
  "generateDisplayName pkg projectName actualProjectDir =
     (let projectPath = (if truthy actualProjectDir then the actualProjectDir
                         else decodeProjectName projectName)
      in case pkg projectPath of
           Some n \<Rightarrow> n
         | None \<Rightarrow>
             if startsWith projectPath (js ''/'') then
               (let parts = filter (\<lambda>s. s \<noteq> []) (splitOn (of_char CHR ''/'') projectPath)
                in if length parts > 3
                   then js ''.../'' @ joinWith (js ''/'') (drop (length parts - 2) parts)
                   else projectPath)
             else projectPath)"

definition customName :: "project_config \<Rightarrow> jsstring \<Rightarrow> jsstring option" where
  "customName config projectName =
     (case map_of config projectName of None \<Rightarrow> None | Some c \<Rightarrow> cfgDisplayName c)"

text \<open>The body of the loop over the project directories found on disk.\<close>

definition diskProject ::
  "filesystem \<Rightarrow> runtime \<Rightarrow> project_config \<Rightarrow> jsstring \<Rightarrow> resolver_state \<Rightarrow> nat
     \<Rightarrow> project \<times> resolver_state \<times> nat" where
  "diskProject fs rt config entryName st reads =
     (let (actualProjectDir, st') = extractProjectDirectory (dirFiles fs) entryName st;
          custom = customName config entryName;
          autoDisplayName = generateDisplayName (packageName fs) entryName (Some actualProjectDir);
          (sessionResult, reads') = getSessions (dirFiles fs) rt reads entryName 5 0
      in (\<lparr>name = entryName,
           displayName = (if truthy custom then the custom else autoDisplayName),
           fullPath = actualProjectDir,
           sessionMeta = \<lparr>metaHasMore = hasMore sessionResult, metaTotal = total sessionResult\<rparr>,
           projectSessions = sessions sessionResult\<rparr>, st', reads'))"

fun diskProjects ::
  "filesystem \<Rightarrow> runtime \<Rightarrow> project_config \<Rightarrow> jsstring list \<Rightarrow> resolver_state \<Rightarrow> nat
     \<Rightarrow> project list \<times> resolver_state \<times> nat" where
  "diskProjects fs rt config [] st reads = ([], st, reads)"
| "diskProjects fs rt config (n # ns) st reads =
     (let (p, st1, reads1) = diskProject fs rt config n st reads;
          (ps, st2, reads2) = diskProjects fs rt config ns st1 reads1
      in (p # ps, st2, reads2))"

text \<open>The body of the loop over the configuration entries.\<close>

definition manualProject ::
  "filesystem \<Rightarrow> jsstring \<Rightarrow> project_config_entry \<Rightarrow> resolver_state
     \<Rightarrow> project \<times> resolver_state" where
  "manualProject fs projectName projectConfig st =
     (let (actualProjectDir, st') =
            (if truthy (originalPath projectConfig) then (the (originalPath projectConfig), st)
             else extractProjectDirectory (dirFiles fs) projectName st)
      in (\<lparr>name = projectName,
           displayName = (if truthy (cfgDisplayName projectConfig)
                          then the (cfgDisplayName projectConfig)
                          else generateDisplayName (packageName fs) projectName
                                 (Some actualProjectDir)),
           fullPath = actualProjectDir,
           sessionMeta = \<lparr>metaHasMore = False, metaTotal = 0\<rparr>,
           projectSessions = []\<rparr>, st'))"

fun manualProjects ::
  "filesystem \<Rightarrow> jsstring list \<Rightarrow> project_config \<Rightarrow> resolver_state
     \<Rightarrow> project list \<times> resolver_state" where
  "manualProjects fs existingProjects [] st = ([], st)"
| "manualProjects fs existingProjects ((projectName, projectConfig) # rest) st =
     (if projectName \<notin> set existingProjects \<and> manuallyAdded projectConfig = Some True
      then (let (p, st1) = manualProject fs projectName projectConfig st;
                (ps, st2) = manualProjects fs existingProjects rest st1
            in (p # ps, st2))
      else manualProjects fs existingProjects rest st)"

definition getProjects ::
  "filesystem \<Rightarrow> runtime \<Rightarrow> project_config \<Rightarrow> resolver_state \<Rightarrow> nat
     \<Rightarrow> project list \<times> resolver_state \<times> nat" where
  "getProjects fs rt config st reads =
     (let existingProjects = (case projectDirs fs of None \<Rightarrow> [] | Some ns \<Rightarrow> ns);
          (disk, st1, reads1) = diskProjects fs rt config existingProjects st reads;
          (manual, st2) = manualProjects fs existingProjects config st1
      in (disk @ manual, st2, reads1))"

definition renameProject :: "project_config \<Rightarrow> jsstring \<Rightarrow> jsstring \<Rightarrow> project_config" where
  "renameProject config projectName newDisplayName =
     (if newDisplayName = [] \<or> trim newDisplayName = []
      then AList.delete projectName config
      else
        (let old = (case map_of config projectName of
                      None \<Rightarrow> \<lparr>cfgDisplayName = None, manuallyAdded = None, originalPath = None\<rparr>
                    | Some c \<Rightarrow> c)
         in AList.update projectName (old\<lparr>cfgDisplayName := Some (trim newDisplayName)\<rparr>) config))"

datatype add_error =
    PathDoesNotExist jsstring
  | ProjectAlreadyExists jsstring
  | AccessFailed
  | ProjectAlreadyConfigured jsstring

record project_return =
  pr_name :: jsstring
  pr_path :: jsstring
  pr_fullPath :: jsstring
  pr_displayName :: jsstring
  isManuallyAdded :: bool
  pr_sessions :: "session list"

text \<open>
  \<open>addProjectManually\<close> returns the error thrown or the project, together with the
  configuration document as it is persisted when the call ends.
\<close>

definition addProjectManually ::
  "filesystem \<Rightarrow> project_config \<Rightarrow> jsstring \<Rightarrow> jsstring option
     \<Rightarrow> (add_error + project_return) \<times> project_config" where
  "addProjectManually fs config projectPath dispName =
     (let absolutePath = resolvePath fs projectPath in
      if accessPath fs absolutePath \<noteq> Accessible
      then (Inl (PathDoesNotExist absolutePath), config)
      else
        let projectName = encodeProjectName absolutePath in
        case accessProjectDir fs projectName of
          Accessible \<Rightarrow> (Inl (ProjectAlreadyExists absolutePath), config)
        | AccessError \<Rightarrow> (Inl AccessFailed, config)
        | ENOENT \<Rightarrow>
            if map_of config projectName \<noteq> None
            then (Inl (ProjectAlreadyConfigured absolutePath), config)
            else
              let entry = \<lparr>cfgDisplayName = (if truthy dispName then dispName else None),
                           manuallyAdded = Some True, originalPath = Some absolutePath\<rparr>;
                  config' = AList.update projectName entry config
              in (Inr \<lparr>pr_name = projectName, pr_path = absolutePath,
                       pr_fullPath = absolutePath,
                       pr_displayName = (if truthy dispName then the dispName
                                         else generateDisplayName (packageName fs) projectName
                                                (Some absolutePath)),
                       isManuallyAdded = True, pr_sessions = []\<rparr>, config'))"

subsection \<open>Deleting a session\<close>












subsection \<open>The words of the specification about sessions\<close>

text \<open>
  For one log file: the timestamps of the entries that bear a session identifier, in
  file order; the session identifiers in the order in which they are first met; and the
  instant the clock reads when a session is first met, the sessions met before it having
  each read the clock once.
\<close>

fun lineTimestamps :: "jsstring \<Rightarrow> logline \<Rightarrow> jsdate list" where
  "lineTimestamps sid (Entry e) =
     (if sessionId e = Some sid \<and> sid \<noteq> []
      then (case timestamp e of None \<Rightarrow> [] | Some t \<Rightarrow> [t]) else [])"
| "lineTimestamps sid _ = []"

definition sessionTimestamps :: "jsstring \<Rightarrow> logline list \<Rightarrow> jsdate list" where
  "sessionTimestamps sid ls = concat (map (lineTimestamps sid) ls)"

definition lastTimestamp :: "jsdate \<Rightarrow> jsdate list \<Rightarrow> jsdate" where
  "lastTimestamp created ts = (if ts = [] then created else last ts)"

fun mentions :: "jsstring \<Rightarrow> logline \<Rightarrow> bool" where
  "mentions sid (Entry e) = (sessionId e = Some sid \<and> sid \<noteq> [])"
| "mentions sid _ = False"

fun lineSessionIds :: "logline \<Rightarrow> jsstring list" where
  "lineSessionIds (Entry e) = (if truthy (sessionId e) then [the (sessionId e)] else [])"
| "lineSessionIds _ = []"

definition sessionIds :: "logline list \<Rightarrow> jsstring list" where
  "sessionIds ls = firstSeen (concat (map lineSessionIds ls))"

fun indexOf :: "'a \<Rightarrow> 'a list \<Rightarrow> nat" where
  "indexOf x [] = 0"
| "indexOf x (y # ys) = (if x = y then 0 else Suc (indexOf x ys))"

definition firstSight :: "runtime \<Rightarrow> nat \<Rightarrow> logline list \<Rightarrow> jsstring \<Rightarrow> jsdate" where
  "firstSight rt reads ls sid = Millis (clock rt (reads + indexOf sid (sessionIds ls)))"

text \<open>
  The invariant of the loop of \<open>parseJsonlSessions\<close> after the lines \<open>ls\<close>, and the
  invariant of the session maps: keys are distinct and each record is stored under its
  own identifier.
\<close>

definition sessionInv :: "runtime \<Rightarrow> nat \<Rightarrow> logline list \<Rightarrow> session_map \<times> nat \<Rightarrow> bool" where
  "sessionInv rt reads ls st \<longleftrightarrow>
     map fst (fst st) = sessionIds ls \<and>
     snd st = reads + length (fst st) \<and>
     (\<forall>sid d. map_of (fst st) sid = Some d \<longrightarrow>
        sd_id d = sid \<and>
        lastActivity d = lastTimestamp (firstSight rt reads ls sid) (sessionTimestamps sid ls))"





definition collectedSessions ::
  "project_dirs \<Rightarrow> runtime \<Rightarrow> nat \<Rightarrow> jsstring \<Rightarrow> nat \<Rightarrow> nat \<Rightarrow> session_data list" where
  "collectedSessions dirs rt reads projectName limit offset =
     (case dirs projectName of
        None \<Rightarrow> []
      | Some files \<Rightarrow> map snd (collected (collectSessions rt reads limit offset (jsonlFiles files))))"

subsection \<open>Sample inputs\<close>

text \<open>
  A run-time environment whose clock advances by one millisecond from one reading to
  the next, starting at 100, and whose sort leaves an array in reverse order when the
  comparison is not consistent.
\<close>

definition sampleRuntime :: runtime where
  "sampleRuntime = \<lparr>clock = (\<lambda>k. 100 + int k), sortOrder = (\<lambda>xs. rev [0..<length xs])\<rparr>"

definition cwdEntry :: "jsstring \<Rightarrow> int \<Rightarrow> logline" where
  "cwdEntry c t = Entry \<lparr>sessionId = None, entryType = None, timestamp = Some (Millis t),
     cwd = Some c, summary = None, message = None\<rparr>"

definition votesLog :: "nat \<Rightarrow> nat \<Rightarrow> logfile" where
  "votesLog a b = \<lparr>fname = js ''votes.jsonl'', mtime = 0,
     loglines = replicate a (cwdEntry (js ''/A'') 1) @ replicate b (cwdEntry (js ''/B'') 2)\<rparr>"

definition logA10B1 :: logfile where "logA10B1 = votesLog 10 1"
definition logA10B4 :: logfile where "logA10B4 = votesLog 10 4"

text \<open>
  A log whose entries are stamped 10 ms and 5 ms before the epoch
  (\<open>1969-12-31T23:59:59.990Z\<close> and \<open>1969-12-31T23:59:59.995Z\<close>).
\<close>

definition preEpochLog :: logfile where
  "preEpochLog = \<lparr>fname = js ''old.jsonl'', mtime = 0,
     loglines = [cwdEntry (js ''/A'') (- 10), cwdEntry (js ''/A'') (- 10),
       cwdEntry (js ''/A'') (- 10), cwdEntry (js ''/A'') (- 10), cwdEntry (js ''/A'') (- 10),
       cwdEntry (js ''/B'') (- 5), cwdEntry (js ''/B'') (- 5)]\<rparr>"

definition emptyResolver :: resolver_state where
  "emptyResolver = \<lparr>cache = Map.empty, fsReads = 0\<rparr>"

definition sessEntry :: "jsstring \<Rightarrow> jsdate option \<Rightarrow> logline" where
  "sessEntry sid t = Entry \<lparr>sessionId = Some sid, entryType = None, timestamp = t,
     cwd = None, summary = None, message = None\<rparr>"

definition outOfOrderLog :: "logline list" where
  "outOfOrderLog = [sessEntry (js ''s1'') (Some (Millis 10)), sessEntry (js ''s1'') (Some (Millis 5))]"

definition inOrderLog :: "logline list" where
  "inOrderLog = [sessEntry (js ''s1'') (Some (Millis 5)), Malformed, sessEntry (js ''s1'') None,
     sessEntry (js ''s1'') (Some (Millis 10))]"

text \<open>
  The two-file project of the specification's scenario: file A is the newer one, the
  directory lists file B first, and no entry carries a timestamp.
\<close>

definition fileA :: logfile where
  "fileA = \<lparr>fname = js ''a.jsonl'', mtime = 2, loglines =
     [Entry \<lparr>sessionId = Some (js ''s1''), entryType = None, timestamp = None,
        cwd = Some (js ''/home/u/app''), summary = None,
        message = Some \<lparr>role = js ''user'', content = Text (js ''Fix the bug'')\<rparr>\<rparr>]\<rparr>"

definition fileB :: logfile where
  "fileB = \<lparr>fname = js ''b.jsonl'', mtime = 1, loglines =
     [Entry \<lparr>sessionId = Some (js ''s1''), entryType = None, timestamp = None,
        cwd = Some (js ''/home/u/app-old''), summary = None, message = None\<rparr>,
      Entry \<lparr>sessionId = Some (js ''s2''), entryType = None, timestamp = None,
        cwd = Some (js ''/home/u/app''), summary = None, message = None\<rparr>]\<rparr>"

definition scenarioDirs :: project_dirs where
  "scenarioDirs n = (if n = js ''my-app'' then Some [fileB, fileA] else None)"



text \<open>
  A project of five files, one session in each of the three newest and the session
  \<open>s9\<close> in the two oldest.
\<close>

definition oneSession :: "string \<Rightarrow> int \<Rightarrow> string \<Rightarrow> int \<Rightarrow> logfile" where
  "oneSession n m sid t = \<lparr>fname = js n, mtime = m,
     loglines = [sessEntry (js sid) (Some (Millis t))]\<rparr>"

definition fiveFiles :: "logfile list" where
  "fiveFiles = [oneSession ''f4.jsonl'' 40 ''s4'' 4000, oneSession ''f1.jsonl'' 10 ''s9'' 1000,
     oneSession ''f5.jsonl'' 50 ''s5'' 5000, oneSession ''f3.jsonl'' 30 ''s3'' 3000,
     oneSession ''f2.jsonl'' 20 ''s9'' 2000]"

text \<open>
  A log file with the two lines
  \<open>{"sessionId":"s1","timestamp":"1970-01-01T00:00:01.000Z"}\<close> and
  \<open>{"sessionId":"s9","timestamp":"not a date"}\<close>.
\<close>

definition badDateFile :: logfile where
  "badDateFile = \<lparr>fname = js ''bad.jsonl'', mtime = 3,
     loglines = [sessEntry (js ''s1'') (Some (Millis 1000)), sessEntry (js ''s9'') (Some InvalidDate)]\<rparr>"

definition badDateDirs :: project_dirs where
  "badDateDirs n = (if n = js ''my-app'' then Some [badDateFile] else None)"

text \<open>
  A file system with no project directories, on which \<open>/tmp/x\<close> and
  \<open>/home/u/my-app\<close> exist, and the configuration that adding \<open>/tmp/x\<close> manually leaves.
\<close>

definition manualFs :: filesystem where
  "manualFs = \<lparr>projectDirs = Some [], dirFiles = (\<lambda>n. None), packageName = (\<lambda>p. None),
     resolvePath = (\<lambda>p. p),
     accessPath = (\<lambda>p. if p = js ''/tmp/x'' \<or> p = js ''/home/u/my-app'' then Accessible else ENOENT),
     accessProjectDir = (\<lambda>n. ENOENT)\<rparr>"

definition manualConfig :: project_config where
  "manualConfig = [(js ''-tmp-x'',
     \<lparr>cfgDisplayName = None, manuallyAdded = Some True, originalPath = Some (js ''/tmp/x'')\<rparr>)]"





section \<open>Properties\<close>

subsection \<open>Directory resolution\<close>

lemma scanLines_observed:
  "foldl scanLine st ls = foldl scanCwd st (concat (map observedLine ls))"
proof (induction ls arbitrary: st)
  case Nil
  show ?case by simp
next
  case (Cons l ls)
  show ?case by (cases l) (simp_all add: Cons.IH)
qed

lemma scanFiles_from:
  "foldl scanFile st files = foldl scanCwd st (observed files)"
  by (induction files arbitrary: st) (simp_all add: observed_def scanFile_def scanLines_observed)

lemma scanFiles_observed: "scanFiles files = foldl scanCwd initScan (observed files)"
  by (simp add: scanFiles_def scanFiles_from)

lemma observed_nonempty: "(c, t) \<in> set (observed files) \<Longrightarrow> c \<noteq> []"
proof -
  have line: "\<And>l. (c, t) \<in> set (observedLine l) \<Longrightarrow> c \<noteq> []"
  proof -
    fix l assume "(c, t) \<in> set (observedLine l)"
    then show "c \<noteq> []"
      by (cases l) (auto simp: truthy_def split: if_splits option.splits)
  qed
  assume "(c, t) \<in> set (observed files)"
  then show ?thesis unfolding observed_def using line by auto
qed

lemma getCount_update:
  "getCount (AList.update c v al) p = (if p = c then v else getCount al p)"
  by (simp add: getCount_def update_conv')

lemma cwdCounts_scanCwd:
  "cwdCounts (scanCwd st ct) =
     AList.update (fst ct) (getCount (cwdCounts st) (fst ct) + 1) (cwdCounts st)"
  by (simp add: scanCwd_def Let_def split: option.splits)

lemma keys_update:
  "map fst (AList.update c v al) = (if c \<in> set (map fst al) then map fst al else map fst al @ [c])"
  by (simp add: update_keys)

lemma scan_keys:
  "map fst (cwdCounts (foldl scanCwd st obs)) =
     foldl (\<lambda>acc x. if x \<in> set acc then acc else acc @ [x]) (map fst (cwdCounts st)) (map fst obs)"
proof (induction obs arbitrary: st)
  case Nil
  show ?case by simp
next
  case (Cons ct obs)
  show ?case
    by (simp add: Cons.IH cwdCounts_scanCwd keys_update del: set_map)
qed

lemma scan_getCount:
  "getCount (cwdCounts (foldl scanCwd st obs)) p =
     getCount (cwdCounts st) p + count_list (map fst obs) p"
proof (induction obs arbitrary: st)
  case Nil
  show ?case by simp
next
  case (Cons ct obs)
  show ?case
    by (simp add: Cons.IH cwdCounts_scanCwd getCount_update)
qed

lemma scan_distinct:
  "distinct (map fst (cwdCounts st)) \<Longrightarrow> distinct (map fst (cwdCounts (foldl scanCwd st obs)))"
proof (induction obs arbitrary: st)
  case Nil
  then show ?case by simp
next
  case (Cons ct obs)
  show ?case
    using Cons.prems by (simp add: Cons.IH cwdCounts_scanCwd distinct_update)
qed

lemma alist_by_keys:
  "distinct (map fst al) \<Longrightarrow> map (\<lambda>p. (fst p, getCount al (fst p))) al = al"
proof (induction al)
  case Nil
  show ?case by simp
next
  case (Cons a al)
  obtain k v where a: "a = (k, v)" by (cases a)
  have notin: "k \<notin> fst ` set al" and d: "distinct (map fst al)"
    using Cons.prems a by auto
  have "map (\<lambda>p. (fst p, getCount (a # al) (fst p))) al = map (\<lambda>p. (fst p, getCount al (fst p))) al"
  proof (rule map_cong[OF refl])
    fix p assume "p \<in> set al"
    then have "fst p \<noteq> k" using notin by auto
    then show "(fst p, getCount (a # al) (fst p)) = (fst p, getCount al (fst p))"
      by (simp add: a getCount_def)
  qed
  also have "\<dots> = al" using Cons.IH[OF d] .
  finally show ?case by (simp add: a getCount_def)
qed

lemma cwdCounts_scanFiles:
  "cwdCounts (scanFiles files) =
     map (\<lambda>p. (p, count_list (map fst (observed files)) p)) (firstSeen (map fst (observed files)))"
proof -
  let ?al = "cwdCounts (scanFiles files)"
  have d: "distinct (map fst ?al)"
    by (simp add: scanFiles_observed scan_distinct initScan_def)
  have k: "map fst ?al = firstSeen (map fst (observed files))"
    by (simp add: scanFiles_observed scan_keys firstSeen_def initScan_def)
  have c: "\<And>p. getCount ?al p = count_list (map fst (observed files)) p"
  proof -
    fix p
    have "getCount (cwdCounts initScan) p = 0" by (simp add: initScan_def getCount_def)
    then show "getCount ?al p = count_list (map fst (observed files)) p"
      by (simp add: scanFiles_observed scan_getCount)
  qed
  have "?al = map (\<lambda>p. (fst p, getCount ?al (fst p))) ?al"
    using alist_by_keys[OF d] by simp
  also have "\<dots> = map (\<lambda>p. (p, getCount ?al p)) (map fst ?al)"
    by (simp add: comp_def)
  finally show ?thesis by (simp only: k c)
qed

lemma observedTimes_Cons:
  "observedTimes (ct # obs) = (case snd ct of None \<Rightarrow> [] | Some t \<Rightarrow> [t]) @ observedTimes obs"
  by (simp add: observedTimes_def)

lemma Max_Cons_greater:
  fixes t :: int
  assumes "x \<in> set T" and "t < x"
  shows "Max (set (t # T)) = Max (set T) \<and> t < Max (set T)"
proof -
  have ne: "set T \<noteq> {}" using assms(1) by auto
  have "x \<le> Max (set T)" using assms(1) by simp
  then have lt: "t < Max (set T)" using assms(2) by linarith
  have "Max (set (t # T)) = max t (Max (set T))" using ne by simp
  then show ?thesis using lt by simp
qed

lemma Max_Cons_least:
  fixes t :: int
  assumes "\<forall>x \<in> set T. x \<le> t"
  shows "Max (set (t # T)) = t"
  using assms by (intro Max_eqI) auto

lemma scanCwd_None:
  "snd ct = None \<Longrightarrow>
   latestTimestamp (scanCwd st ct) = latestTimestamp st \<and> latestCwd (scanCwd st ct) = latestCwd st"
  by (simp add: scanCwd_def Let_def)

lemma scanCwd_Some:
  "snd ct = Some t \<Longrightarrow>
   (if latestTimestamp st < t
    then latestTimestamp (scanCwd st ct) = t \<and> latestCwd (scanCwd st ct) = Some (fst ct)
    else latestTimestamp (scanCwd st ct) = latestTimestamp st \<and>
         latestCwd (scanCwd st ct) = latestCwd st)"
  by (simp add: scanCwd_def Let_def)

lemma scan_latest_exact:
  "if \<exists>t \<in> set (observedTimes obs). latestTimestamp st < t
   then latestTimestamp (foldl scanCwd st obs) = Max (set (observedTimes obs)) \<and>
        latestCwd (foldl scanCwd st obs) =
          map_option fst (find (\<lambda>ct. snd ct = Some (Max (set (observedTimes obs)))) obs)
   else latestTimestamp (foldl scanCwd st obs) = latestTimestamp st \<and>
        latestCwd (foldl scanCwd st obs) = latestCwd st"
proof (induction obs arbitrary: st)
  case Nil
  show ?case by (simp add: observedTimes_def)
next
  case (Cons ct obs)
  let ?T = "observedTimes obs"
  let ?st1 = "scanCwd st ct"
  let ?st' = "foldl scanCwd ?st1 obs"
  note ih = Cons.IH[of ?st1]
  show ?case
  proof (cases "snd ct")
    case None
    have T: "observedTimes (ct # obs) = ?T" by (simp add: observedTimes_Cons None)
    have same: "latestTimestamp ?st1 = latestTimestamp st" "latestCwd ?st1 = latestCwd st"
      using scanCwd_None[OF None, of st] by simp_all
    show ?thesis using ih by (simp add: T same None)
  next
    case (Some t)
    have T: "observedTimes (ct # obs) = t # ?T" by (simp add: observedTimes_Cons Some)
    note step = scanCwd_Some[OF Some, of st]
    show ?thesis
    proof (cases "latestTimestamp st < t")
      case True
      then have st1: "latestTimestamp ?st1 = t" "latestCwd ?st1 = Some (fst ct)"
        using step by simp_all
      have cond: "\<exists>x \<in> set (observedTimes (ct # obs)). latestTimestamp st < x"
        using True by (simp add: T)
      show ?thesis
      proof (cases "\<exists>x \<in> set ?T. t < x")
        case True
        then obtain x where x: "x \<in> set ?T" "t < x" by blast
        note m = Max_Cons_greater[OF x]
        from ih True have r: "latestTimestamp ?st' = Max (set ?T)"
          "latestCwd ?st' = map_option fst (find (\<lambda>ct. snd ct = Some (Max (set ?T))) obs)"
          by (simp_all add: st1)
        have "snd ct \<noteq> Some (Max (set (t # ?T)))" using m Some by simp
        then show ?thesis using cond r m by (simp add: T)
      next
        case False
        then have all: "\<forall>x \<in> set ?T. x \<le> t" by auto
        note m = Max_Cons_least[OF all]
        from ih False have r: "latestTimestamp ?st' = t" "latestCwd ?st' = Some (fst ct)"
          by (simp_all add: st1)
        show ?thesis using cond r m Some by (simp add: T)
      qed
    next
      case False
      then have st1: "latestTimestamp ?st1 = latestTimestamp st" "latestCwd ?st1 = latestCwd st"
        using step by simp_all
      have condeq: "(\<exists>x \<in> set (observedTimes (ct # obs)). latestTimestamp st < x) \<longleftrightarrow>
          (\<exists>x \<in> set ?T. latestTimestamp st < x)"
        using False by (auto simp: T)
      show ?thesis
      proof (cases "\<exists>x \<in> set ?T. latestTimestamp st < x")
        case True
        then obtain x where x: "x \<in> set ?T" "latestTimestamp st < x" by blast
        then have "t < x" using False by linarith
        note m = Max_Cons_greater[OF x(1) this]
        from ih True have r: "latestTimestamp ?st' = Max (set ?T)"
          "latestCwd ?st' = map_option fst (find (\<lambda>ct. snd ct = Some (Max (set ?T))) obs)"
          by (simp_all add: st1)
        have "snd ct \<noteq> Some (Max (set (t # ?T)))" using m Some by simp
        then show ?thesis using condeq True r m by (simp add: T)
      next
        case F2: False
        from ih F2 have r: "latestTimestamp ?st' = latestTimestamp st"
          "latestCwd ?st' = latestCwd st"
          by (simp_all add: st1)
        show ?thesis using condeq F2 r by simp
      qed
    qed
  qed
qed

lemma latestCwd_scanFiles:
  "latestCwd (scanFiles files) =
     (if \<exists>t \<in> set (observedTimes (observed files)). 0 < t
      then maxTimestampCwd (observed files) else None)"
proof -
  have init: "latestTimestamp initScan = 0" "latestCwd initScan = None"
    by (simp_all add: initScan_def)
  show ?thesis
    using scan_latest_exact[of "observed files" initScan]
    by (auto simp: scanFiles_observed init maxTimestampCwd_def)
qed

lemma set_firstSeen_from:
  "set (foldl (\<lambda>acc x. if x \<in> set acc then acc else acc @ [x]) acc xs) = set acc \<union> set xs"
  by (induction xs arbitrary: acc) auto

lemma set_firstSeen: "set (firstSeen xs) = set xs"
  by (simp add: firstSeen_def set_firstSeen_from)

lemma find_counts:
  "find (\<lambda>p. snd p = m) (map (\<lambda>p. (p, f p)) xs) = map_option (\<lambda>p. (p, f p)) (find (\<lambda>q. f q = m) xs)"
  by (induction xs) auto

lemma fold_max_Max:
  "xs \<noteq> [] \<Longrightarrow> fold max xs (0::nat) = Max (set xs)"
proof -
  assume ne: "xs \<noteq> []"
  have "fold max xs (0::nat) = Max (set (0 # xs))" by (simp only: Max.set_eq_fold)
  also have "\<dots> = Max (insert 0 (set xs))" by simp
  also have "\<dots> = max 0 (Max (set xs))" using ne by (subst Max_insert) auto
  finally show ?thesis by simp
qed

lemmas resolver_eval = extractProjectDirectory_def chooseCwd_def scanFiles_def scanFile_def
  scanCwd_def entryTime_def getTime_def getCount_def firstWithCount_def initScan_def
  jsonlFiles_def endsWith_def truthy_def observed_def observedTimes_def maxTimestampCwd_def
  cwdEntry_def emptyResolver_def decodeProjectName_def js_def Let_def

text \<open>
  Claim C1, as amended. On a cache miss with a readable log directory, let \<open>paths\<close> be
  the distinct \<open>cwd\<close> values of the entries in order of first encounter, \<open>cnt\<close> their
  occurrence counts, \<open>maxCount\<close> the highest count, \<open>latest\<close> the resolver's
  \<open>latestCwd\<close> and \<open>recentCount\<close> its count (0 while it is unset). With no path the
  result is the decoded project name; with exactly one path it is that path; with several
  it is \<open>latest\<close> when \<open>recentCount \<ge> 0.25 * maxCount\<close>, and otherwise the first path in
  encounter order whose count is \<open>maxCount\<close>. \<open>latest\<close> is the path carried by the first
  entry with the maximum observed timestamp when that maximum is after the epoch, and is
  unset otherwise (a missing timestamp counts as the epoch, an invalid one is never
  the maximum).
\<close>

theorem extractProjectDirectory_decision_rule:
  assumes miss: "cache st projectName = None"
    and dir: "dirs projectName = Some files"
    and obs: "obs = observed (jsonlFiles files)"
    and paths: "paths = firstSeen (map fst obs)"
    and cnt: "cnt = count_list (map fst obs)"
    and maxCount: "maxCount = Max (cnt ` set paths)"
    and latest: "latest = latestCwd (scanFiles (jsonlFiles files))"
    and recentCount: "recentCount = (case latest of None \<Rightarrow> 0 | Some l \<Rightarrow> cnt l)"
    and r: "r = fst (extractProjectDirectory dirs projectName st)"
  shows "(paths = [] \<longrightarrow> r = decodeProjectName projectName) \<and>
         (\<forall>p. paths = [p] \<longrightarrow> r = p) \<and>
         (1 < length paths \<longrightarrow>
            (if maxCount \<le> 4 * recentCount then latest = Some r
             else find (\<lambda>q. cnt q = maxCount) paths = Some r)) \<and>
         latest = (if \<exists>t \<in> set (observedTimes obs). 0 < t then maxTimestampCwd obs
                   else None)"
proof -
  let ?jsonl = "jsonlFiles files"
  let ?sc = "scanFiles ?jsonl"
  let ?counts = "cwdCounts ?sc"
  have counts: "?counts = map (\<lambda>p. (p, cnt p)) paths"
    by (simp only: cwdCounts_scanFiles obs paths cnt)
  have len: "length ?counts = length paths" by (simp add: counts)
  have setp: "set paths = set (map fst obs)" by (simp only: paths set_firstSeen)
  have nonempty: "\<And>p. p \<in> set paths \<Longrightarrow> p \<noteq> []"
    using setp observed_nonempty[of _ _ ?jsonl] obs by auto
  have pos: "p \<in> set paths \<longleftrightarrow> 0 < cnt p" for p
  proof -
    have "(cnt p = 0) = (p \<notin> set paths)" by (simp only: setp cnt count_list_0_iff)
    then show ?thesis by auto
  qed
  have empty_jsonl: "?jsonl = [] \<Longrightarrow> paths = []"
    by (simp add: paths obs observed_def firstSeen_def)
  have r': "r = chooseCwd projectName ?sc \<or> (paths = [] \<and> r = decodeProjectName projectName)"
    using miss dir empty_jsonl by (auto simp: r extractProjectDirectory_def Let_def)
  have zero: "paths = [] \<Longrightarrow> r = decodeProjectName projectName"
    using r' len by (auto simp: chooseCwd_def Let_def)
  have one: "\<And>p. paths = [p] \<Longrightarrow> r = p"
  proof -
    fix p assume p: "paths = [p]"
    then have "?counts = [(p, cnt p)]" using counts by simp
    then have "chooseCwd projectName ?sc = p" by (simp add: chooseCwd_def Let_def)
    then show "r = p" using r' p by auto
  qed
  have many: "if maxCount \<le> 4 * recentCount then latest = Some r
             else find (\<lambda>q. cnt q = maxCount) paths = Some r" if m: "1 < length paths"
  proof -
    have ne: "paths \<noteq> []" using m by auto
    have rc: "r = chooseCwd projectName ?sc" using r' ne by auto
    have mx: "fold max (map snd ?counts) 0 = maxCount"
    proof -
      have "map snd ?counts = map cnt paths" by (simp add: counts comp_def)
      moreover have "map cnt paths \<noteq> []" using ne by simp
      ultimately show ?thesis using fold_max_Max[of "map cnt paths"] by (simp add: maxCount)
    qed
    have mrc: "(case latestCwd ?sc of None \<Rightarrow> 0 | Some l \<Rightarrow> getCount ?counts l) = recentCount"
    proof -
      have "\<And>l. getCount ?counts l = cnt l"
      proof -
        fix l
        have "getCount (cwdCounts initScan) l = 0" by (simp add: initScan_def getCount_def)
        then show "getCount ?counts l = cnt l"
          by (simp add: scanFiles_observed scan_getCount cnt obs)
      qed
      then show ?thesis by (simp add: recentCount latest split: option.splits)
    qed
    have cne: "?counts \<noteq> []" "length ?counts \<noteq> Suc 0" using m len by auto
    have ch: "chooseCwd projectName ?sc =
      (let ep = (if maxCount \<le> 4 * recentCount then latest else firstWithCount ?counts maxCount)
       in if truthy ep then the ep else if truthy latest then the latest
          else decodeProjectName projectName)"
      unfolding chooseCwd_def Let_def mx mrc latest using cne by simp
    have attained: "maxCount \<in> cnt ` set paths"
      unfolding maxCount using ne by (intro Max_in) auto
    then obtain q0 where q0: "q0 \<in> set paths" "cnt q0 = maxCount" by auto
    have maxpos: "0 < maxCount" using q0 pos by auto
    show ?thesis
    proof (cases "maxCount \<le> 4 * recentCount")
      case True
      then have "0 < recentCount" using maxpos by linarith
      then obtain l where l: "latest = Some l" "0 < cnt l"
        by (auto simp: recentCount split: option.splits)
      then have "l \<noteq> []" using pos nonempty by auto
      then have "chooseCwd projectName ?sc = l"
        using True l by (simp add: ch truthy_def)
      then show ?thesis using True l rc by simp
    next
      case False
      have "find (\<lambda>q. cnt q = maxCount) paths \<noteq> None"
        using q0 by (auto simp: find_None_iff)
      then obtain q where q: "find (\<lambda>q. cnt q = maxCount) paths = Some q" by auto
      then have "q \<in> set paths" by (auto simp: find_Some_iff)
      then have qne: "q \<noteq> []" using nonempty by auto
      have "firstWithCount ?counts maxCount = Some q"
        by (simp add: firstWithCount_def counts find_counts q)
      then have "chooseCwd projectName ?sc = q"
        using False qne by (simp add: ch truthy_def)
      then show ?thesis using False q rc by simp
    qed
  qed
  have lat: "latest = (if \<exists>t \<in> set (observedTimes obs). 0 < t then maxTimestampCwd obs
                   else None)"
    unfolding latest obs by (rule latestCwd_scanFiles)
  from zero one many lat show ?thesis by blast
qed

text \<open>
  Five entries for \<open>/A\<close> and then two for \<open>/B\<close>, all stamped before the epoch, the
  later ones on \<open>/B\<close>: the entry with the maximum observed timestamp carries \<open>/B\<close>, and
  its count 2 is at least a quarter of the highest count 5, yet the result is \<open>/A\<close>.
\<close>

theorem latestCwd_epoch_counterexample:
  "maxTimestampCwd (observed (jsonlFiles [preEpochLog])) = Some (js ''/B'') \<and>
   count_list (map fst (observed (jsonlFiles [preEpochLog]))) (js ''/B'') = 2 \<and>
   count_list (map fst (observed (jsonlFiles [preEpochLog]))) (js ''/A'') = 5 \<and>
   fst (extractProjectDirectory (\<lambda>n. Some [preEpochLog]) (js ''my-app'') emptyResolver) = js ''/A''"
  by (simp add: resolver_eval preEpochLog_def)

theorem extractProjectDirectory_decision_rule_witness:
  "fst (extractProjectDirectory (\<lambda>n. Some [logA10B1]) (js ''my-app'') emptyResolver) = js ''/A'' \<and>
   fst (extractProjectDirectory (\<lambda>n. Some [logA10B4]) (js ''my-app'') emptyResolver) = js ''/B''"
proof -
  have miss: "cache emptyResolver (js ''my-app'') = None" by (simp add: emptyResolver_def)
  have p1: "firstSeen (map fst (observed (jsonlFiles [logA10B1]))) = [js ''/A'', js ''/B'']"
    by code_simp
  have p4: "firstSeen (map fst (observed (jsonlFiles [logA10B4]))) = [js ''/A'', js ''/B'']"
    by code_simp
  have l1: "latestCwd (scanFiles (jsonlFiles [logA10B1])) = Some (js ''/B'')" by code_simp
  have l4: "latestCwd (scanFiles (jsonlFiles [logA10B4])) = Some (js ''/B'')" by code_simp
  have c1: "count_list (map fst (observed (jsonlFiles [logA10B1]))) (js ''/A'') = 10"
    "count_list (map fst (observed (jsonlFiles [logA10B1]))) (js ''/B'') = 1" by code_simp+
  have c4: "count_list (map fst (observed (jsonlFiles [logA10B4]))) (js ''/A'') = 10"
    "count_list (map fst (observed (jsonlFiles [logA10B4]))) (js ''/B'') = 4" by code_simp+
  note t1 = extractProjectDirectory_decision_rule[OF miss _ refl refl refl refl refl refl refl,
      of "\<lambda>n. Some [logA10B1]" "[logA10B1]"]
  note t4 = extractProjectDirectory_decision_rule[OF miss _ refl refl refl refl refl refl refl,
      of "\<lambda>n. Some [logA10B4]" "[logA10B4]"]
  from t1 have "fst (extractProjectDirectory (\<lambda>n. Some [logA10B1]) (js ''my-app'') emptyResolver) = js ''/A''"
    by (simp add: p1 l1 c1)
  moreover from t4 have "fst (extractProjectDirectory (\<lambda>n. Some [logA10B4]) (js ''my-app'') emptyResolver) = js ''/B''"
    by (simp add: p4 l4 c4)
  ultimately show ?thesis by simp
qed
text \<open>
  Claim C7. A call of the resolver leaves its result in the cache, also on the fallback
  branch taken when the log directory cannot be read; a second call with no invalidation
  in between returns the same path and leaves the state as it is, the count of file-system
  reads included, whatever the file system holds by then.
\<close>

theorem extractProjectDirectory_memoized:
  assumes "extractProjectDirectory dirs projectName st = (p, st')"
  shows "cache st' projectName = Some p \<and>
         extractProjectDirectory dirs' projectName st' = (p, st')"
  using assms
  by (auto simp: extractProjectDirectory_def Let_def split: option.splits)

theorem extractProjectDirectory_memoized_witness:
  "extractProjectDirectory (\<lambda>n. None) (js ''-home-u-app'') emptyResolver =
     (js ''/home/u/app'', \<lparr>cache = [js ''-home-u-app'' \<mapsto> js ''/home/u/app''], fsReads = 1\<rparr>) \<and>
   extractProjectDirectory (\<lambda>n. Some [logA10B4]) (js ''-home-u-app'')
       \<lparr>cache = [js ''-home-u-app'' \<mapsto> js ''/home/u/app''], fsReads = 1\<rparr> =
     (js ''/home/u/app'', \<lparr>cache = [js ''-home-u-app'' \<mapsto> js ''/home/u/app''], fsReads = 1\<rparr>)"
proof -
  have first: "extractProjectDirectory (\<lambda>n. None) (js ''-home-u-app'') emptyResolver =
     (js ''/home/u/app'', \<lparr>cache = [js ''-home-u-app'' \<mapsto> js ''/home/u/app''], fsReads = 1\<rparr>)"
    by (simp add: extractProjectDirectory_def Let_def emptyResolver_def decodeProjectName_def js_def)
  from extractProjectDirectory_memoized[OF first, of "\<lambda>n. Some [logA10B4]"]
  have "extractProjectDirectory (\<lambda>n. Some [logA10B4]) (js ''-home-u-app'')
       \<lparr>cache = [js ''-home-u-app'' \<mapsto> js ''/home/u/app''], fsReads = 1\<rparr> =
     (js ''/home/u/app'', \<lparr>cache = [js ''-home-u-app'' \<mapsto> js ''/home/u/app''], fsReads = 1\<rparr>)"
    by (rule conjunct2)
  with first show ?thesis by (rule conjI)
qed


subsection \<open>Session aggregation\<close>

lemma lastActivity_updateSummary [simp]: "lastActivity (updateSummary e s) = lastActivity s"
  by (simp add: updateSummary_def split: option.splits content.splits)

lemma sd_id_updateSummary [simp]: "sd_id (updateSummary e s) = sd_id s"
  by (simp add: updateSummary_def split: option.splits content.splits)

lemma sessionTimestamps_snoc:
  "sessionTimestamps sid (ls @ [l]) = sessionTimestamps sid ls @ lineTimestamps sid l"
  by (simp add: sessionTimestamps_def)

lemma firstSeen_snoc:
  "firstSeen (xs @ [x]) = (if x \<in> set xs then firstSeen xs else firstSeen xs @ [x])"
  by (simp add: firstSeen_def set_firstSeen_from)

lemma distinct_firstSeen: "distinct (firstSeen xs)"
  by (induction xs rule: rev_induct) (simp_all add: firstSeen_snoc firstSeen_def set_firstSeen)

lemma sessionIds_set: "set (sessionIds ls) = set (concat (map lineSessionIds ls))"
  by (simp only: sessionIds_def set_firstSeen)

lemma sessionIds_skip: "lineSessionIds l = [] \<Longrightarrow> sessionIds (ls @ [l]) = sessionIds ls"
  by (simp add: sessionIds_def)

lemma sessionIds_entry:
  "lineSessionIds l = [sid] \<Longrightarrow>
   sessionIds (ls @ [l]) =
     (if sid \<in> set (sessionIds ls) then sessionIds ls else sessionIds ls @ [sid])"
  by (simp add: sessionIds_def firstSeen_snoc set_firstSeen)

lemma mentions_sessionIds: "list_ex (mentions sid) ls \<longleftrightarrow> sid \<in> set (sessionIds ls)"
proof -
  have line: "mentions sid l \<longleftrightarrow> sid \<in> set (lineSessionIds l)" for l
    by (cases l) (auto simp: truthy_def split: option.splits)
  show ?thesis by (simp add: sessionIds_set list_ex_iff line)
qed

lemma no_mention_no_timestamps:
  "sid \<notin> set (sessionIds ls) \<Longrightarrow> sessionTimestamps sid ls = []"
proof -
  have line: "\<not> mentions sid l \<Longrightarrow> lineTimestamps sid l = []" for l
    by (cases l) auto
  assume "sid \<notin> set (sessionIds ls)"
  then have "\<forall>l \<in> set ls. \<not> mentions sid l"
    using mentions_sessionIds[of sid ls] by (simp add: list_ex_iff)
  then show ?thesis by (simp add: sessionTimestamps_def line)
qed

lemma indexOf_append: "x \<in> set xs \<Longrightarrow> indexOf x (xs @ ys) = indexOf x xs"
  by (induction xs) auto

lemma indexOf_new: "x \<notin> set xs \<Longrightarrow> indexOf x (xs @ [x]) = length xs"
  by (induction xs) auto

lemma sessionInv_lookup:
  assumes "sessionInv rt reads ls st" and "map_of (fst st) sid = Some d"
  shows "sd_id d = sid \<and>
         lastActivity d = lastTimestamp (firstSight rt reads ls sid) (sessionTimestamps sid ls)"
  using assms unfolding sessionInv_def by blast

lemma sessionInv_keys:
  assumes "sessionInv rt reads ls st"
  shows "map_of (fst st) sid = None \<longleftrightarrow> sid \<notin> set (sessionIds ls)"
proof -
  have "map fst (fst st) = sessionIds ls" using assms by (simp add: sessionInv_def)
  then have "fst ` set (fst st) = set (sessionIds ls)" by (metis set_map)
  then show ?thesis by (simp add: map_of_eq_None_iff)
qed

lemma sessionInv_step:
  assumes inv: "sessionInv rt reads ls st"
  shows "sessionInv rt reads (ls @ [l]) (processLine rt st l)"
proof -
  consider (skip) "processLine rt st l = st" "lineSessionIds l = []"
      "\<And>sid. lineTimestamps sid l = []"
    | (entry) e sid0 where "l = Entry e" "sessionId e = Some sid0" "sid0 \<noteq> []"
  proof (cases l)
    case Blank
    then show ?thesis using that(1) by simp
  next
    case Malformed
    then show ?thesis using that(1) by simp
  next
    case (Entry e)
    show ?thesis
    proof (cases "truthy (sessionId e)")
      case False
      then show ?thesis using that(1) Entry
        by (auto simp: processEntry_def truthy_def split: option.splits)
    next
      case True
      then show ?thesis using that(2) Entry
        by (auto simp: truthy_def split: option.splits)
    qed
  qed
  then show ?thesis
  proof cases
    case skip
    have ids: "sessionIds (ls @ [l]) = sessionIds ls" using skip(2) by (rule sessionIds_skip)
    have ts: "\<And>sid. sessionTimestamps sid (ls @ [l]) = sessionTimestamps sid ls"
      using skip(3) by (simp add: sessionTimestamps_snoc)
    have fs: "\<And>sid. firstSight rt reads (ls @ [l]) sid = firstSight rt reads ls sid"
      by (simp add: firstSight_def ids)
    show ?thesis using inv unfolding sessionInv_def skip(1) ids ts fs .
  next
    case (entry e sid0)
    note Entry = entry(1)
    note sid0 = entry(2,3)
    obtain m k where st: "st = (m, k)" by (cases st)
    have keys: "map fst m = sessionIds ls" and k: "k = reads + length m"
      using inv by (simp_all add: sessionInv_def st)
    have lids: "lineSessionIds l = [sid0]" using Entry sid0 by (simp add: truthy_def)
    define session where
      "session = (case map_of m sid0 of None \<Rightarrow> newSession (clock rt k) e sid0 | Some s \<Rightarrow> s)"
    define k' where "k' = (case map_of m sid0 of None \<Rightarrow> k + 1 | Some s \<Rightarrow> k)"
    define s1 where "s1 = updateSummary e session"
    define s2 where "s2 = s1\<lparr>messageCount := messageCount s1 + 1\<rparr>"
    define s3 where "s3 = (case timestamp e of None \<Rightarrow> s2 | Some t \<Rightarrow> s2\<lparr>lastActivity := t\<rparr>)"
    have step: "processLine rt st l = (AList.update sid0 s3 m, k')"
      unfolding s3_def s2_def s1_def session_def k'_def
      using Entry sid0 by (simp add: st processEntry_def Let_def split: option.splits)
    have known: "map_of m sid0 = None \<longleftrightarrow> sid0 \<notin> set (sessionIds ls)"
      using sessionInv_keys[OF inv, of sid0] by (simp add: st)
    have keys': "map fst (AList.update sid0 s3 m) = sessionIds (ls @ [l])"
      by (simp add: update_keys keys sessionIds_entry[OF lids])
    have count: "k' = reads + length (AList.update sid0 s3 m)"
    proof -
      have "length (AList.update sid0 s3 m) = length (map fst (AList.update sid0 s3 m))" by simp
      also have "\<dots> = (if sid0 \<in> set (sessionIds ls) then length m else length m + 1)"
        by (simp only: update_keys keys) (simp add: keys[symmetric])
      finally show ?thesis using known k by (auto simp: k'_def split: option.splits)
    qed
    have sess: "sd_id session = sid0 \<and>
        lastActivity session =
          lastTimestamp (firstSight rt reads (ls @ [l]) sid0) (sessionTimestamps sid0 ls)"
    proof (cases "map_of m sid0")
      case None
      then have new: "sid0 \<notin> set (sessionIds ls)" using known by simp
      then have "sessionTimestamps sid0 ls = []" by (rule no_mention_no_timestamps)
      moreover have "indexOf sid0 (sessionIds (ls @ [l])) = length m"
        using new by (simp add: sessionIds_entry[OF lids] indexOf_new keys[symmetric])
      ultimately show ?thesis
        using None by (simp add: session_def newSession_def lastTimestamp_def firstSight_def k)
    next
      case (Some s)
      then have old: "sid0 \<in> set (sessionIds ls)" using known by simp
      then have "firstSight rt reads (ls @ [l]) sid0 = firstSight rt reads ls sid0"
        by (simp add: firstSight_def sessionIds_entry[OF lids])
      then show ?thesis
        using sessionInv_lookup[OF inv, of sid0 s] Some by (simp add: session_def st)
    qed
    have s3id: "sd_id s3 = sid0"
      using sess by (simp add: s3_def s2_def s1_def split: option.splits)
    have s3la: "lastActivity s3 =
        lastTimestamp (firstSight rt reads (ls @ [l]) sid0) (sessionTimestamps sid0 (ls @ [l]))"
      using sess Entry sid0
      by (simp add: s3_def s2_def s1_def sessionTimestamps_snoc lastTimestamp_def split: option.splits)
    have "sd_id d = sid \<and>
        lastActivity d =
          lastTimestamp (firstSight rt reads (ls @ [l]) sid) (sessionTimestamps sid (ls @ [l]))"
      if look: "map_of (AList.update sid0 s3 m) sid = Some d" for sid d
    proof (cases "sid = sid0")
      case True
      then show ?thesis using look s3id s3la by (simp add: update_conv')
    next
      case False
      then have old: "map_of m sid = Some d" using look by (simp add: update_conv')
      then have "sid \<in> set (sessionIds ls)"
        using sessionInv_keys[OF inv, of sid] by (simp add: st)
      then have fs: "firstSight rt reads (ls @ [l]) sid = firstSight rt reads ls sid"
        by (simp add: firstSight_def sessionIds_entry[OF lids] indexOf_append)
      have "lineTimestamps sid l = []" using False Entry sid0 by simp
      then have ts: "sessionTimestamps sid (ls @ [l]) = sessionTimestamps sid ls"
        by (simp add: sessionTimestamps_snoc)
      show ?thesis using sessionInv_lookup[OF inv, of sid d] old by (simp add: st fs ts)
    qed
    then show ?thesis using keys' count step by (simp add: sessionInv_def)
  qed
qed

lemma sessionInv_sessionMapOf: "sessionInv rt reads ls (sessionMapOf rt reads ls)"
proof (induction ls rule: rev_induct)
  case Nil
  show ?case by (simp add: sessionInv_def sessionMapOf_def sessionIds_def firstSeen_def)
next
  case (snoc l ls)
  then show ?case using sessionInv_step[of rt reads ls "sessionMapOf rt reads ls" l]
    by (simp add: sessionMapOf_def)
qed

lemma mset_arrange: "mset (arrange order xs) = mset xs"
proof (cases "sort order = [0..<length xs]")
  case True
  have "mset order = mset (sort order)" by simp
  then have "mset order = mset [0..<length xs]" by (simp only: True)
  then have "mset (map (\<lambda>i. xs ! i) order) = mset (map (\<lambda>i. xs ! i) [0..<length xs])"
    by (simp only: mset_map)
  then show ?thesis using True by (simp add: arrange_def map_nth)
next
  case False
  then show ?thesis by (simp add: arrange_def)
qed

lemma mset_sortByLastActivity: "mset (sortByLastActivity rt xs) = mset xs"
  by (simp add: sortByLastActivity_def mset_arrange)

lemma set_sortByLastActivity: "set (sortByLastActivity rt xs) = set xs"
  using mset_sortByLastActivity[of rt xs] by (rule mset_eq_setD)

lemma fst_parseJsonlSessions:
  "fst (parseJsonlSessions rt reads ls) =
     sortByLastActivity rt (map snd (fst (sessionMapOf rt reads ls)))"
  by (simp add: parseJsonlSessions_def split: prod.splits)

lemma snd_parseJsonlSessions:
  "snd (parseJsonlSessions rt reads ls) = reads + length (sessionIds ls)"
proof -
  have "sessionInv rt reads ls (sessionMapOf rt reads ls)" by (rule sessionInv_sessionMapOf)
  then have r: "snd (sessionMapOf rt reads ls) = reads + length (fst (sessionMapOf rt reads ls))"
    and k: "map fst (fst (sessionMapOf rt reads ls)) = sessionIds ls"
    by (simp_all add: sessionInv_def)
  from k have "length (fst (sessionMapOf rt reads ls)) = length (sessionIds ls)"
    by (metis length_map)
  then show ?thesis using r
    by (cases "sessionMapOf rt reads ls") (simp add: parseJsonlSessions_def)
qed

lemma parsed_in_map:
  assumes "d \<in> set (fst (parseJsonlSessions rt reads ls))"
  shows "map_of (fst (sessionMapOf rt reads ls)) (sd_id d) = Some d"
proof -
  let ?m = "fst (sessionMapOf rt reads ls)"
  have inv: "sessionInv rt reads ls (sessionMapOf rt reads ls)" by (rule sessionInv_sessionMapOf)
  from assms obtain k where kd: "(k, d) \<in> set ?m"
    by (auto simp: fst_parseJsonlSessions set_sortByLastActivity)
  have "map fst ?m = sessionIds ls" using inv by (simp add: sessionInv_def)
  then have dist: "distinct (map fst ?m)" by (simp add: sessionIds_def distinct_firstSeen)
  then have look: "map_of ?m k = Some d" using kd by simp
  moreover have "sd_id d = k"
    using sessionInv_lookup[OF inv look] by simp
  ultimately show ?thesis by simp
qed


lemma parsed_distinct: "distinct (map sd_id (fst (parseJsonlSessions rt reads ls)))"
proof -
  let ?m = "fst (sessionMapOf rt reads ls)"
  have inv: "sessionInv rt reads ls (sessionMapOf rt reads ls)" by (rule sessionInv_sessionMapOf)
  have keys: "map fst ?m = sessionIds ls" using inv by (simp add: sessionInv_def)
  have dist: "distinct (map fst ?m)" by (simp add: keys sessionIds_def distinct_firstSeen)
  have eq: "map sd_id (map snd ?m) = map fst ?m"
    unfolding map_map
  proof (rule map_cong[OF refl])
    fix p assume mem: "p \<in> set ?m"
    obtain k d where p: "p = (k, d)" by (cases p)
    then have "map_of ?m k = Some d" using mem dist by simp
    then show "(sd_id \<circ> snd) p = fst p" using sessionInv_lookup[OF inv] p by simp
  qed
  have "distinct (map sd_id (map snd ?m))" unfolding eq by (rule dist)
  moreover have "mset (map sd_id (fst (parseJsonlSessions rt reads ls))) =
      mset (map sd_id (map snd ?m))"
    by (simp only: fst_parseJsonlSessions mset_map mset_sortByLastActivity)
  ultimately show ?thesis by (metis mset_eq_imp_distinct_iff)
qed

lemma sorted_last_Max:
  fixes xs :: "int list"
  shows "sorted xs \<Longrightarrow> xs \<noteq> [] \<Longrightarrow> last xs = Max (set xs)"
proof (induction xs)
  case Nil
  then show ?case by simp
next
  case (Cons x xs)
  show ?case
  proof (cases "xs = []")
    case True
    then show ?thesis by simp
  next
    case False
    then have ih: "last xs = Max (set xs)" using Cons by simp
    have "last xs \<in> set xs" using False by simp
    then have "x \<le> Max (set xs)" using Cons.prems ih by auto
    then have "Max (insert x (set xs)) = Max (set xs)"
      using False by (simp add: max_def)
    then show ?thesis using False ih by simp
  qed
qed

lemmas session_eval = parseJsonlSessions_def sortByLastActivity_def timeOf_def sessionMapOf_def
  sessEntry_def processEntry_def newSession_def updateSummary_def Let_def sessionTimestamps_def
  truthy_def arrange_def validTimes_def sampleRuntime_def js_def

text \<open>
  Claim C4, as amended. For every session aggregated from one log file, \<open>lastActivity\<close>
  is the date of the last entry, in file order, that bears the session identifier and
  carries a timestamp (each such entry overwrites the recorded value), and the instant
  the clock read when the session was created when no such entry exists. When those
  timestamps are valid dates in non-decreasing file order it is their maximum.
\<close>

theorem parseJsonlSessions_lastActivity:
  assumes "d \<in> set (fst (parseJsonlSessions rt reads ls))"
  shows "lastActivity d =
           lastTimestamp (firstSight rt reads ls (sd_id d)) (sessionTimestamps (sd_id d) ls) \<and>
         (\<forall>ms. sessionTimestamps (sd_id d) ls = map Millis ms \<and> ms \<noteq> [] \<and> sorted ms
            \<longrightarrow> lastActivity d = Millis (Max (set ms)))"
proof -
  have inv: "sessionInv rt reads ls (sessionMapOf rt reads ls)" by (rule sessionInv_sessionMapOf)
  have look: "map_of (fst (sessionMapOf rt reads ls)) (sd_id d) = Some d"
    using assms by (rule parsed_in_map)
  have la: "lastActivity d =
      lastTimestamp (firstSight rt reads ls (sd_id d)) (sessionTimestamps (sd_id d) ls)"
    using sessionInv_lookup[OF inv look] by simp
  moreover have "lastActivity d = Millis (Max (set ms))"
    if "sessionTimestamps (sd_id d) ls = map Millis ms" "ms \<noteq> []" "sorted ms" for ms
    using la that sorted_last_Max[of ms]
    by (simp add: lastTimestamp_def last_map)
  ultimately show ?thesis by blast
qed

text \<open>
  Two entries of one session with timestamps 10 and then 5: the recorded
  \<open>lastActivity\<close> is 5, the maximum over the contributing entries is 10.
\<close>

theorem lastActivity_max_counterexample:
  "map lastActivity (fst (parseJsonlSessions sampleRuntime 0 outOfOrderLog)) = [Millis 5] \<and>
   sessionTimestamps (js ''s1'') outOfOrderLog = map Millis [10, 5] \<and>
   Max (set [10, 5]) = (10 :: int)"
  by (simp add: session_eval outOfOrderLog_def)

theorem parseJsonlSessions_lastActivity_witness:
  "map sd_id (fst (parseJsonlSessions sampleRuntime 0 inOrderLog)) = [js ''s1''] \<and>
   sessionTimestamps (js ''s1'') inOrderLog = map Millis [5, 10] \<and>
   map lastActivity (fst (parseJsonlSessions sampleRuntime 0 inOrderLog)) = [Millis 10]"
proof -
  have ids: "map sd_id (fst (parseJsonlSessions sampleRuntime 0 inOrderLog)) = [js ''s1'']"
    by (simp add: session_eval inOrderLog_def)
  then obtain d0 where p: "fst (parseJsonlSessions sampleRuntime 0 inOrderLog) = [d0]"
    and i: "sd_id d0 = js ''s1''"
    by auto
  have t: "sessionTimestamps (js ''s1'') inOrderLog = map Millis [5, 10]"
    by (simp add: session_eval inOrderLog_def)
  have m: "d0 \<in> set (fst (parseJsonlSessions sampleRuntime 0 inOrderLog))" by (simp add: p)
  from parseJsonlSessions_lastActivity[OF m, THEN conjunct2, rule_format, of "[5, 10]"] i t
  have "lastActivity d0 = Millis 10" by simp
  then show ?thesis using ids t by (simp add: p)
qed



















lemma those_Some_map: "those xs = Some ys \<Longrightarrow> xs = map Some ys"
  by (induction xs arbitrary: ys) (auto split: option.splits)

lemma those_None_iff: "those xs = None \<longleftrightarrow> None \<in> set xs"
  by (induction xs) (auto split: option.splits)

lemma toSession_None_iff: "toSession d = None \<longleftrightarrow> lastActivity d = InvalidDate"
  by (simp add: toSession_def split: jsdate.splits)

lemma getSessions_eq:
  "fst (getSessions dirs rt reads projectName limit offset) =
     (if dirs projectName = None \<or> jsonlFiles (the (dirs projectName)) = [] then emptyResult
      else case those (map toSession (collectedSessions dirs rt reads projectName limit offset)) of
             None \<Rightarrow> emptyResult
           | Some mapped \<Rightarrow>
               \<lparr>sessions = slice (sortSessions mapped) offset (offset + limit),
                hasMore = (offset + limit < length (sortSessions mapped)),
                total = length (sortSessions mapped),
                res_offset = Some offset, res_limit = Some limit\<rparr>)"
  by (auto simp: getSessions_def getSessionsBody_def collectedSessions_def Let_def
      split: option.splits)

lemma sortSessions_sorted:
  "sorted_wrt (\<lambda>a b. updated_at b \<le> updated_at a) (sortSessions xs)"
proof -
  have "sorted (map (\<lambda>s. - updated_at s) (sortSessions xs))"
    by (simp add: sortSessions_def)
  then show ?thesis by (simp add: sorted_map)
qed


lemmas getSessions_eval = getSessions_def getSessionsBody_def jsonlFiles_def endsWith_def
  collectSessions_def sortFilesByMtime_def mergeSessions_def mergeStep_def sortSessions_def
  toSession_def slice_def emptyResult_def startsWith_def contentTruthy_def
  parseJsonlSessions_def sortByLastActivity_def timeOf_def sessionMapOf_def processEntry_def
  newSession_def updateSummary_def Let_def truthy_def arrange_def validTimes_def sampleRuntime_def
  js_def








text \<open>
  The project of five files. With \<open>limit = 10\<close> all five files are processed and \<open>s9\<close>
  is the record of the fourth file in processing order, the newest that has it. With
  \<open>limit = 1\<close> the loop stops after the three newest files, which hold three sessions,
  and \<open>s9\<close> is not collected.
\<close>

lemma fiveFiles_example:
  "map mtime (sortFilesByMtime (jsonlFiles fiveFiles)) = [50, 40, 30, 20, 10] \<and>
   filesProcessed (collectSessions sampleRuntime 0 10 0 (jsonlFiles fiveFiles)) = 5 \<and>
   map_option lastActivity
     (map_of (collected (collectSessions sampleRuntime 0 10 0 (jsonlFiles fiveFiles))) (js ''s9''))
     = Some (Millis 2000) \<and>
   filesProcessed (collectSessions sampleRuntime 0 1 0 (jsonlFiles fiveFiles)) = 3 \<and>
   map_of (collected (collectSessions sampleRuntime 0 1 0 (jsonlFiles fiveFiles))) (js ''s9'') = None"
  by (simp add: fiveFiles_def oneSession_def sessEntry_def getSessions_eval)

text \<open>
  The pagination of \<open>getSessions\<close>. The length of the page and \<open>hasMore\<close> follow \<open>total\<close>
  for all \<open>limit\<close> and \<open>offset\<close>. When every collected session has a valid
  \<open>lastActivity\<close>, \<open>total\<close> is the size of the collected set and the page is the window
  \<open>[offset, offset + limit)\<close> of the set arranged by descending \<open>lastActivity\<close>.
\<close>

lemma getSessions_window:
  "let r = fst (getSessions dirs rt reads projectName limit offset);
       cs = collectedSessions dirs rt reads projectName limit offset
   in length (sessions r) = min limit (total r - offset) \<and>
      (total r \<le> offset \<longrightarrow> sessions r = []) \<and>
      hasMore r = (offset + limit < total r) \<and>
      ((\<forall>d \<in> set cs. lastActivity d \<noteq> InvalidDate) \<longrightarrow>
         (\<exists>mapped S. map toSession cs = map Some mapped \<and>
              total r = length cs \<and>
              mset S = mset mapped \<and>
              sorted_wrt (\<lambda>a b. updated_at b \<le> updated_at a) S \<and>
              sessions r = take limit (drop offset S)))"
proof -
  let ?r = "fst (getSessions dirs rt reads projectName limit offset)"
  let ?c = "collectedSessions dirs rt reads projectName limit offset"
  have invalid_iff: "(\<exists>d \<in> set ?c. lastActivity d = InvalidDate) \<longleftrightarrow>
      those (map toSession ?c) = None"
  proof -
    have "(\<exists>d \<in> set ?c. lastActivity d = InvalidDate) \<longleftrightarrow> (\<exists>d \<in> set ?c. toSession d = None)"
      by (simp add: toSession_None_iff)
    also have "\<dots> \<longleftrightarrow> None \<in> set (map toSession ?c)" by (force simp: image_iff)
    finally show ?thesis by (simp only: those_None_iff)
  qed
  consider (none) "dirs projectName = None \<or> jsonlFiles (the (dirs projectName)) = []"
    | (bad) "\<not> (dirs projectName = None \<or> jsonlFiles (the (dirs projectName)) = [])"
        "those (map toSession ?c) = None"
    | (good) mapped where
        "\<not> (dirs projectName = None \<or> jsonlFiles (the (dirs projectName)) = [])"
        "those (map toSession ?c) = Some mapped"
    by (cases "those (map toSession ?c)") blast+
  then show ?thesis
  proof cases
    case none
    then have r: "?r = emptyResult" by (simp add: getSessions_eq)
    have c: "?c = []" using none
      by (auto simp: collectedSessions_def collectSessions_def sortFilesByMtime_def
          split: option.splits)
    show ?thesis unfolding Let_def r c by (simp add: emptyResult_def)
  next
    case bad
    then have r: "?r = emptyResult" by (auto simp: getSessions_eq)
    have "\<exists>d \<in> set ?c. lastActivity d = InvalidDate" using bad(2) invalid_iff by simp
    then show ?thesis unfolding Let_def r by (auto simp: emptyResult_def)
  next
    case (good mapped)
    let ?S = "sortSessions mapped"
    have r: "?r = \<lparr>sessions = slice ?S offset (offset + limit),
        hasMore = (offset + limit < length ?S), total = length ?S,
        res_offset = Some offset, res_limit = Some limit\<rparr>"
      using good by (auto simp: getSessions_eq)
    have m: "map toSession ?c = map Some mapped" using good(2) by (rule those_Some_map)
    then have "length (map toSession ?c) = length (map Some mapped)" by simp
    then have len: "length ?S = length ?c" by (simp add: sortSessions_def)
    have ms: "mset ?S = mset mapped" by (simp add: sortSessions_def)
    have "\<exists>mapped' S. map toSession ?c = map Some mapped' \<and>
              total ?r = length ?c \<and>
              mset S = mset mapped' \<and>
              sorted_wrt (\<lambda>a b. updated_at b \<le> updated_at a) S \<and>
              sessions ?r = take limit (drop offset S)"
      using m len ms sortSessions_sorted[of mapped]
      by (intro exI[of _ mapped] exI[of _ ?S]) (simp add: r slice_def)
    moreover have "length (sessions ?r) = min limit (total ?r - offset)"
      "total ?r \<le> offset \<longrightarrow> sessions ?r = []"
      "hasMore ?r = (offset + limit < total ?r)"
      by (simp_all add: r slice_def)
    ultimately show ?thesis unfolding Let_def by simp
  qed
qed

text \<open>
  Claim C3, at the failing input. The project has one log file with a session \<open>s1\<close>
  whose timestamp is a valid date and a session \<open>s9\<close> whose timestamp is no date. Both
  sessions are collected, so the window \<open>[0, 1)\<close> of the collected set has one session
  and its size is 2; but \<open>toISOString\<close> throws on the date of \<open>s9\<close>, the handler written
  for read errors catches it, and \<open>getSessions\<close> returns no session with total 0, on
  which \<open>isProjectEmpty\<close> answers that the project has no sessions.
\<close>

theorem getSessions_invalid_date_loses_sessions:
  "map sd_id (collectedSessions badDateDirs sampleRuntime 0 (js ''my-app'') 1 0)
     = [js ''s1'', js ''s9''] \<and>
   map lastActivity (collectedSessions badDateDirs sampleRuntime 0 (js ''my-app'') 1 0)
     = [Millis 1000, InvalidDate] \<and>
   fst (getSessionsBody badDateDirs sampleRuntime 0 (js ''my-app'') 1 0) = Inl InvalidTimeValue \<and>
   sessions (fst (getSessions badDateDirs sampleRuntime 0 (js ''my-app'') 1 0)) = [] \<and>
   total (fst (getSessions badDateDirs sampleRuntime 0 (js ''my-app'') 1 0)) = 0 \<and>
   fst (isProjectEmpty badDateDirs sampleRuntime 0 (js ''my-app''))"
  by (simp add: isProjectEmpty_def collectedSessions_def badDateDirs_def badDateFile_def
      sessEntry_def getSessions_eval)

text \<open>
  Claim C8. When the log directory of a project cannot be read, the failure is caught
  inside \<open>getSessions\<close>, which returns the empty result: no sessions, total 0, no more
  pages.
\<close>

theorem getSessions_unreadable:
  assumes "dirs projectName = None"
  shows "getSessionsBody dirs rt reads projectName limit offset = (Inl ReaddirFailed, reads) \<and>
         getSessions dirs rt reads projectName limit offset = (emptyResult, reads) \<and>
         sessions (fst (getSessions dirs rt reads projectName limit offset)) = [] \<and>
         total (fst (getSessions dirs rt reads projectName limit offset)) = 0 \<and>
         \<not> hasMore (fst (getSessions dirs rt reads projectName limit offset))"
  using assms by (simp add: getSessions_def getSessionsBody_def emptyResult_def)

theorem getSessions_unreadable_witness:
  "scenarioDirs (js ''gone'') = None \<and>
   getSessions scenarioDirs sampleRuntime 0 (js ''gone'') 5 0 = (emptyResult, 0) \<and>
   total (fst (getSessions scenarioDirs sampleRuntime 0 (js ''gone'') 5 0)) = 0"
proof -
  have h: "scenarioDirs (js ''gone'') = None" by (simp add: scenarioDirs_def js_def)
  from getSessions_unreadable[of scenarioDirs "js ''gone''" sampleRuntime 0 5 0, OF h] h
  show ?thesis by (simp add: emptyResult_def)
qed

subsection \<open>Configuration store and project catalogue\<close>

lemmas catalogue_eval = getProjects_def manualProject_def diskProject_def customName_def
  generateDisplayName_def renameProject_def trim_def isSpace_def startsWith_def truthy_def
  decodeProjectName_def encodeProjectName_def js_def Let_def AList.delete_eq

text \<open>
  Claim C6, at the failing input. A project added manually for \<open>/tmp/x\<close> has the
  configuration entry \<open>{manuallyAdded, originalPath}\<close> and no directory on disk; it is
  listed, and renaming it to \<open>X\<close> lists it under \<open>X\<close>. Renaming it to the empty
  string deletes the whole entry, not only the display name, and the project is no
  longer listed.
\<close>

theorem renameProject_empty_drops_entry:
  "fst (addProjectManually manualFs [] (js ''/tmp/x'') None) =
     Inr \<lparr>pr_name = js ''-tmp-x'', pr_path = js ''/tmp/x'', pr_fullPath = js ''/tmp/x'',
          pr_displayName = js ''/tmp/x'', isManuallyAdded = True, pr_sessions = []\<rparr> \<and>
   snd (addProjectManually manualFs [] (js ''/tmp/x'') None) = manualConfig \<and>
   map name (fst (getProjects manualFs sampleRuntime manualConfig emptyResolver 0)) = [js ''-tmp-x''] \<and>
   map displayName (fst (getProjects manualFs sampleRuntime
       (renameProject manualConfig (js ''-tmp-x'') (js ''X'')) emptyResolver 0)) = [js ''X''] \<and>
   renameProject manualConfig (js ''-tmp-x'') [] = [] \<and>
   fst (getProjects manualFs sampleRuntime (renameProject manualConfig (js ''-tmp-x'') []) emptyResolver 0) = []"
  by (simp add: catalogue_eval addProjectManually_def manualFs_def manualConfig_def emptyResolver_def)

lemma decode_encode_iff:
  "decodeProjectName (encodeProjectName p) = p \<longleftrightarrow> of_char CHR ''-'' \<notin> set p"
  by (induction p) (auto simp: decodeProjectName_def encodeProjectName_def)

text \<open>
  Claim C9. When the resolved path cannot be accessed, \<open>addProjectManually\<close> fails with
  \<open>Path does not exist\<close> whatever the project directory and the configuration hold (no
  duplicate check decides the outcome), and the persisted configuration is unchanged.
\<close>

theorem addProjectManually_checks_path_first:
  assumes "accessPath fs (resolvePath fs projectPath) \<noteq> Accessible"
  shows "addProjectManually fs config projectPath dispName =
           (Inl (PathDoesNotExist (resolvePath fs projectPath)), config)"
  using assms by (simp add: addProjectManually_def Let_def)

theorem addProjectManually_checks_path_first_witness:
  "accessPath (manualFs\<lparr>accessProjectDir := (\<lambda>n. Accessible)\<rparr>)
      (resolvePath (manualFs\<lparr>accessProjectDir := (\<lambda>n. Accessible)\<rparr>) (js ''/tmp/y'')) \<noteq> Accessible \<and>
   addProjectManually (manualFs\<lparr>accessProjectDir := (\<lambda>n. Accessible)\<rparr>)
      [(js ''-tmp-y'', \<lparr>cfgDisplayName = None, manuallyAdded = Some True, originalPath = Some (js ''/tmp/y'')\<rparr>)]
      (js ''/tmp/y'') None =
     (Inl (PathDoesNotExist (js ''/tmp/y'')),
      [(js ''-tmp-y'', \<lparr>cfgDisplayName = None, manuallyAdded = Some True, originalPath = Some (js ''/tmp/y'')\<rparr>)])"
proof -
  have h: "accessPath (manualFs\<lparr>accessProjectDir := (\<lambda>n. Accessible)\<rparr>)
      (resolvePath (manualFs\<lparr>accessProjectDir := (\<lambda>n. Accessible)\<rparr>) (js ''/tmp/y'')) \<noteq> Accessible"
    by (simp add: manualFs_def js_def)
  from addProjectManually_checks_path_first[OF h] h show ?thesis
    by (simp add: manualFs_def)
qed

text \<open>
  Claim C10. Decoding the encoding of a path gives the path back exactly when the path
  has no hyphen. For a project added manually, the identifier is the encoding of the
  absolute path, and the fallback resolution of that identifier (no readable log
  directory, nothing cached) is the original path exactly when the path has no hyphen.
\<close>

theorem encoding_not_invertible:
  "(decodeProjectName (encodeProjectName p) = p \<longleftrightarrow> of_char CHR ''-'' \<notin> set p) \<and>
   (\<forall>fs config dispName r config' dirs st.
      addProjectManually fs config p dispName = (Inr r, config') \<and>
      cache st (pr_name r) = None \<and> dirs (pr_name r) = None \<longrightarrow>
      pr_name r = encodeProjectName (pr_path r) \<and>
      (fst (extractProjectDirectory dirs (pr_name r) st) = pr_path r
         \<longleftrightarrow> of_char CHR ''-'' \<notin> set (pr_path r)))"
proof (intro conjI allI impI)
  show "decodeProjectName (encodeProjectName p) = p \<longleftrightarrow> of_char CHR ''-'' \<notin> set p"
    by (rule decode_encode_iff)
next
  fix fs :: filesystem and config :: project_config and dispName :: "jsstring option"
    and r :: project_return and config' :: project_config and dirs :: project_dirs
    and st :: resolver_state
  assume a: "addProjectManually fs config p dispName = (Inr r, config') \<and>
      cache st (pr_name r) = None \<and> dirs (pr_name r) = None"
  then show n: "pr_name r = encodeProjectName (pr_path r)"
    by (auto simp: addProjectManually_def Let_def split: if_splits access_result.splits)
  have "fst (extractProjectDirectory dirs (pr_name r) st) = decodeProjectName (pr_name r)"
    using a by (simp add: extractProjectDirectory_def Let_def)
  then show "fst (extractProjectDirectory dirs (pr_name r) st) = pr_path r
         \<longleftrightarrow> of_char CHR ''-'' \<notin> set (pr_path r)"
    using n decode_encode_iff[of "pr_path r"] by simp
qed

theorem encoding_not_invertible_witness:
  "of_char CHR ''-'' \<in> set (js ''/home/u/my-app'') \<and>
   decodeProjectName (encodeProjectName (js ''/home/u/my-app'')) \<noteq> js ''/home/u/my-app'' \<and>
   map_sum id pr_name (fst (addProjectManually manualFs [] (js ''/home/u/my-app'') None))
     = Inr (js ''-home-u-my-app'') \<and>
   fst (extractProjectDirectory (dirFiles manualFs) (js ''-home-u-my-app'') emptyResolver)
     \<noteq> js ''/home/u/my-app''"
proof -
  let ?r = "\<lparr>pr_name = js ''-home-u-my-app'', pr_path = js ''/home/u/my-app'',
     pr_fullPath = js ''/home/u/my-app'', pr_displayName = js ''/home/u/my-app'',
     isManuallyAdded = True, pr_sessions = []\<rparr>"
  let ?c = "[(js ''-home-u-my-app'', \<lparr>cfgDisplayName = None, manuallyAdded = Some True,
     originalPath = Some (js ''/home/u/my-app'')\<rparr>)]"
  have add: "addProjectManually manualFs [] (js ''/home/u/my-app'') None = (Inr ?r, ?c)"
    by (simp add: addProjectManually_def manualFs_def catalogue_eval)
  have miss: "cache emptyResolver (pr_name ?r) = None" by (simp add: emptyResolver_def)
  have dir: "dirFiles manualFs (pr_name ?r) = None" by (simp add: manualFs_def)
  have hy: "of_char CHR ''-'' \<in> set (js ''/home/u/my-app'')" by (simp add: js_def)
  note t = encoding_not_invertible[of "(js ''/home/u/my-app'')"]
  from t have a: "decodeProjectName (encodeProjectName (js ''/home/u/my-app'')) \<noteq> js ''/home/u/my-app''"
    using hy by blast
  from t add miss dir
  have "fst (extractProjectDirectory (dirFiles manualFs) (pr_name ?r) emptyResolver) = pr_path ?r
         \<longleftrightarrow> of_char CHR ''-'' \<notin> set (pr_path ?r)"
    by blast
  then have b: "fst (extractProjectDirectory (dirFiles manualFs) (js ''-home-u-my-app'') emptyResolver)
     \<noteq> js ''/home/u/my-app''" using hy by simp
  from hy a b add show ?thesis by simp
qed


subsection \<open>Deleting a session\<close>
























end
